theory Spec2Isabelle
  imports Complex_Main "HOL-Library.Sublist" "HOL-Library.Char_ord" "HOL-Library.List_Lexorder" "HOL-Library.Multiset"
begin

section \<open>Data model\<close>

text \<open>
  A chunk's metadata is the dict built in \<open>UploadService.process_upload\<close>, which is the only
  producer of metadata in the repository and always stores the same seven keys, with
  \<open>deleted\<close> set to \<open>False\<close>.  The record has one field per key (the key \<open>'text'\<close> is the
  field \<open>chunk_text\<close>), so \<open>metadata.get(k, default)\<close> and \<open>metadata[k]\<close> both read the
  field: \<open>metadata.get('deleted', False)\<close> is \<open>deleted m\<close>.
\<close>

record metadata =
  chunk_id :: string
  resource_id :: string
  file_name :: string
  page_number :: int
  chunk_text :: string
  uploaded_at :: string
  deleted :: bool

type_synonym vector = "real list"

datatype error = ValueError | FileNotFoundError | AssertionError | OSError

section \<open>The FAISS flat inner-product index\<close>

text \<open>
  Modelled from the spec: \<open>faiss\<close> is a library outside the repository, which uses
  \<open>IndexFlatIP\<close> through \<open>normalize_L2\<close>, \<open>add\<close>, \<open>search\<close> and \<open>ntotal\<close>.  The index keeps
  its rows in insertion order and rejects a row of another dimension; a search scores
  every stored row by its inner product with the query and returns the \<open>k\<close> best in
  descending score order, rows with equal scores by increasing position.  Scores are
  real numbers.
\<close>

record faiss_index =
  faiss_d :: nat
  xb :: "vector list"

definition ntotal :: "faiss_index \<Rightarrow> nat" where
  "ntotal ix = length (xb ix)"

definition inner_product :: "vector \<Rightarrow> vector \<Rightarrow> real" where
  "inner_product x y = sum_list (map2 (\<lambda>a b. a * b) x y)"

definition normalize_L2 :: "vector \<Rightarrow> vector" where
  "normalize_L2 x =
     (let n = sqrt (inner_product x x) in if n > 0 then map (\<lambda>a. a / n) x else x)"

definition index_add :: "faiss_index \<Rightarrow> vector list \<Rightarrow> error + faiss_index" where
  "index_add ix rows =
     (if list_all (\<lambda>v. length v = faiss_d ix) rows
      then Inr (ix\<lparr>xb := xb ix @ rows\<rparr>)
      else Inl AssertionError)"

definition ranking :: "faiss_index \<Rightarrow> vector \<Rightarrow> nat list" where
  "ranking ix q = sort_key (\<lambda>i. - inner_product q (xb ix ! i)) [0..<ntotal ix]"

definition index_search :: "faiss_index \<Rightarrow> vector \<Rightarrow> nat \<Rightarrow> real list \<times> nat list" where
  "index_search ix q k =
     (let labels = take k (ranking ix q)
      in (map (\<lambda>i. inner_product q (xb ix ! i)) labels, labels))"

section \<open>VectorStore\<close>

record vector_store =
  dimension :: nat
  index :: faiss_index
  metadata_store :: "metadata list"

text \<open>The two files of \<open>index_path\<close>: \<open>index.faiss\<close> and \<open>metadata.pkl\<close>; \<open>None\<close> is an absent file.\<close>

record disk =
  index_file :: "faiss_index option"
  metadata_file :: "metadata list option"

text \<open>
  \<open>add_documents\<close>: the count check raises before anything is changed; so does the index when
  a row has the wrong dimension.  On success rows and metadata are appended together.
\<close>

definition add_documents :: "vector list \<Rightarrow> metadata list \<Rightarrow> vector_store \<Rightarrow> error + vector_store" where
  "add_documents embeddings metadatas vs =
     (if length embeddings \<noteq> length metadatas then Inl ValueError
      else case index_add (index vs) (map normalize_L2 embeddings) of
             Inl e \<Rightarrow> Inl e
           | Inr ix \<Rightarrow> Inr (vs\<lparr>index := ix, metadata_store := metadata_store vs @ metadatas\<rparr>))"

text \<open>The loop of \<open>search\<close> over \<open>zip(indices[0], scores[0])\<close>, with \<open>results\<close> as accumulator.\<close>

fun collect_results :: "metadata list \<Rightarrow> (nat \<times> real) list \<Rightarrow> (metadata \<times> real) list \<Rightarrow> (metadata \<times> real) list" where
  "collect_results ms [] results = results"
| "collect_results ms ((idx, score) # rest) results =
     (if idx < length ms then
        (let m = ms ! idx in
         if \<not> deleted m then collect_results ms rest (results @ [(m, score)])
         else collect_results ms rest results)
      else collect_results ms rest results)"

definition search :: "vector \<Rightarrow> nat \<Rightarrow> vector_store \<Rightarrow> (metadata \<times> real) list" where
  "search query_embedding k vs =
     (if ntotal (index vs) = 0 then []
      else
        let q = normalize_L2 query_embedding;
            k' = min k (ntotal (index vs));
            (scores, indices) = index_search (index vs) q k'
        in collect_results (metadata_store vs) (zip indices scores) [])"

text \<open>
  \<open>save\<close> writes both files; \<open>load\<close> needs both and raises \<open>FileNotFoundError\<close> otherwise;
  \<open>_load_if_exists\<close> swallows that error; \<open>__init__\<close> starts from an empty index of the given
  dimension and then tries to load.
\<close>

definition save :: "vector_store \<Rightarrow> disk \<Rightarrow> disk" where
  "save vs dk = dk\<lparr>index_file := Some (index vs), metadata_file := Some (metadata_store vs)\<rparr>"

definition load :: "vector_store \<Rightarrow> disk \<Rightarrow> error + vector_store" where
  "load vs dk =
     (case index_file dk of
        None \<Rightarrow> Inl FileNotFoundError
      | Some ix \<Rightarrow>
          (case metadata_file dk of
             None \<Rightarrow> Inl FileNotFoundError
           | Some ms \<Rightarrow> Inr (vs\<lparr>index := ix, metadata_store := ms\<rparr>)))"

definition load_if_exists :: "vector_store \<Rightarrow> disk \<Rightarrow> vector_store" where
  "load_if_exists vs dk = (case load vs dk of Inl e \<Rightarrow> vs | Inr vs' \<Rightarrow> vs')"

definition vector_store_init :: "nat \<Rightarrow> disk \<Rightarrow> vector_store" where
  "vector_store_init dimen dk =
     load_if_exists \<lparr>dimension = dimen, index = \<lparr>faiss_d = dimen, xb = []\<rparr>, metadata_store = []\<rparr> dk"

text \<open>
  \<open>get_all_resources\<close>.  \<open>resource_map\<close> is a Python dict, which keeps its keys in insertion
  order: an association list with one entry per key, new keys appended.
\<close>

record resource =
  res_id :: string
  filename :: string
  num_chunks :: nat
  res_uploaded_at :: string

definition bump_chunks :: "string \<Rightarrow> (string \<times> resource) list \<Rightarrow> (string \<times> resource) list" where
  "bump_chunks rid resource_map =
     map (\<lambda>(k, v). if k = rid then (k, v\<lparr>num_chunks := num_chunks v + 1\<rparr>) else (k, v)) resource_map"

fun group_resources :: "metadata list \<Rightarrow> (string \<times> resource) list \<Rightarrow> (string \<times> resource) list" where
  "group_resources [] resource_map = resource_map"
| "group_resources (m # rest) resource_map =
     (if deleted m then group_resources rest resource_map
      else if resource_id m = [] then group_resources rest resource_map
      else
        let rid = resource_id m;
            resource_map' =
              (if map_of resource_map rid = None
               then resource_map @
                      [(rid, \<lparr>res_id = rid, filename = file_name m, num_chunks = 0,
                              res_uploaded_at = uploaded_at m\<rparr>)]
               else resource_map)
        in group_resources rest (bump_chunks rid resource_map'))"

definition get_all_resources :: "vector_store \<Rightarrow> resource list" where
  "get_all_resources vs = map snd (group_resources (metadata_store vs) [])"

text \<open>
  \<open>delete_resource\<close>: the loop sets \<open>deleted\<close> in place and counts; \<open>visited\<close> holds the
  entries the loop has passed.  The store is saved when the count is positive.  The entries of
  \<open>metadata_store\<close> are distinct dict objects, as \<open>process_upload\<close> creates them.
\<close>

fun delete_loop :: "string \<Rightarrow> metadata list \<Rightarrow> metadata list \<Rightarrow> nat \<Rightarrow> metadata list \<times> nat" where
  "delete_loop rid [] visited deleted_count = (visited, deleted_count)"
| "delete_loop rid (m # rest) visited deleted_count =
     (if resource_id m = rid \<and> \<not> deleted m
      then delete_loop rid rest (visited @ [m\<lparr>deleted := True\<rparr>]) (deleted_count + 1)
      else delete_loop rid rest (visited @ [m]) deleted_count)"

definition delete_resource :: "string \<Rightarrow> vector_store \<times> disk \<Rightarrow> nat \<times> vector_store \<times> disk" where
  "delete_resource rid s =
     (let (vs, dk) = s;
          (ms, deleted_count) = delete_loop rid (metadata_store vs) [] 0;
          vs' = vs\<lparr>metadata_store := ms\<rparr>
      in (deleted_count, vs', if deleted_count > 0 then save vs' dk else dk))"

section \<open>Python lists and strings\<close>

text \<open>
  \<open>xs[start:stop]\<close> on integers: a negative index counts from the end, and both ends are
  clamped to the list.
\<close>

definition slice_index :: "int \<Rightarrow> nat \<Rightarrow> nat" where
  "slice_index i n = (if i < 0 then nat (max (i + int n) 0) else min (nat i) n)"

definition py_slice :: "'a list \<Rightarrow> int \<Rightarrow> int \<Rightarrow> 'a list" where
  "py_slice xs start stop =
     (let lo = slice_index start (length xs); hi = slice_index stop (length xs)
      in take (hi - lo) (drop lo xs))"

text \<open>
  A \<open>string\<close> holds the UTF-8 bytes of a Python \<open>str\<close>.  The dot is one byte and occurs in
  the encoding of no other character, so \<open>str.split(".")\<close> (never the empty list) and
  \<open>sub in s\<close> are what they are on the bytes.  \<open>str.lower\<close> folds every cased letter of
  Unicode; it is a parameter \<open>str_lower\<close> of the functions that call it, and nothing is
  assumed of it.
\<close>

fun split_on :: "char \<Rightarrow> string \<Rightarrow> string list" where
  "split_on sep [] = [[]]"
| "split_on sep (c # cs) =
     (if c = sep then [] # split_on sep cs
      else (case split_on sep cs of [] \<Rightarrow> [[c]] | w # ws \<Rightarrow> (c # w) # ws))"

fun contains :: "string \<Rightarrow> string \<Rightarrow> bool" where
  "contains sub [] = (sub = [])"
| "contains sub (c # cs) = (prefix sub (c # cs) \<or> contains sub cs)"

section \<open>Reranker\<close>

text \<open>
  A document is the dict \<open>{text, metadata, vector_score}\<close>; \<open>rerank\<close> adds the key
  \<open>rerank_score\<close> to each.  The cross-encoder is a parameter \<open>predict\<close>, a score for a
  (query, text) pair; scores are real numbers.  \<open>sorted(..., reverse=True)\<close> is stable.
\<close>

record document =
  doc_text :: string
  doc_metadata :: metadata
  vector_score :: real

record scored_document = document +
  rerank_score :: real

definition add_score :: "document \<Rightarrow> real \<Rightarrow> scored_document" where
  "add_score doc s = document.extend doc \<lparr>rerank_score = s\<rparr>"

definition rerank :: "(string \<Rightarrow> string \<Rightarrow> real) \<Rightarrow> string \<Rightarrow> document list \<Rightarrow> int \<Rightarrow> scored_document list" where
  "rerank predict query documents top_k =
     (if documents = [] then []
      else
        let pairs = map (\<lambda>doc. (query, doc_text doc)) documents;
            scores = map (\<lambda>(q, t). predict q t) pairs;
            min_score = Min (set scores);
            max_score = Max (set scores);
            score_range = max_score - min_score;
            scored =
              map2 (\<lambda>doc score.
                      add_score doc
                        (if score_range > 0 then (score - min_score) / score_range
                         else if length documents = 1 then 1 else 1 / 2))
                documents scores;
            reranked = sort_key (\<lambda>x. - rerank_score x) scored
        in py_slice reranked 0 top_k)"

section \<open>SearchService\<close>

record result_metadata =
  rm_file_name :: string
  rm_page_number :: int
  rm_resource_id :: string
  rm_chunk_id :: string

record search_result =
  sr_text :: string
  sr_metadata :: result_metadata
  sr_rerank_score :: real
  sr_vector_score :: real

text \<open>The response without \<open>search_time_ms\<close>: time is not modelled.\<close>

record search_response =
  resp_query :: string
  resp_results :: "search_result list"
  total_found :: nat
  has_more :: bool
  resp_offset :: int
  resp_limit :: int

text \<open>
  The filter dict is an association list from key to value, the values strings (the
  source calls \<open>.lower()\<close> on them); \<open>None\<close> is no dict.  \<open>if filters:\<close> is true for a dict
  with at least one key.
\<close>

type_synonym filters = "(string \<times> string) list"

text \<open>
  \<open>metadata["file_name"].split(".")[-1].lower()\<close>, and the two tests of the loop of
  \<open>_apply_filters\<close>: each is true when its key is in the dict and the entry fails it
  (\<open>continue\<close>).
\<close>

definition file_ext :: "(string \<Rightarrow> string) \<Rightarrow> metadata \<Rightarrow> string" where
  "file_ext str_lower m = str_lower (last (split_on CHR ''.'' (file_name m)))"

definition type_mismatch :: "(string \<Rightarrow> string) \<Rightarrow> filters \<Rightarrow> metadata \<Rightarrow> bool" where
  "type_mismatch str_lower fs m =
     (case map_of fs ''type'' of
        None \<Rightarrow> False
      | Some t \<Rightarrow> file_ext str_lower m \<noteq> str_lower t)"

definition name_mismatch :: "(string \<Rightarrow> string) \<Rightarrow> filters \<Rightarrow> metadata \<Rightarrow> bool" where
  "name_mismatch str_lower fs m =
     (case map_of fs ''file_name'' of
        None \<Rightarrow> False
      | Some n \<Rightarrow> \<not> contains (str_lower n) (str_lower (file_name m)))"

fun apply_filters_loop ::
  "(string \<Rightarrow> string) \<Rightarrow> (metadata \<times> real) list \<Rightarrow> filters \<Rightarrow> (metadata \<times> real) list \<Rightarrow>
   (metadata \<times> real) list" where
  "apply_filters_loop str_lower [] fs filtered = filtered"
| "apply_filters_loop str_lower ((m, score) # rest) fs filtered =
     (if type_mismatch str_lower fs m then apply_filters_loop str_lower rest fs filtered
      else if name_mismatch str_lower fs m then apply_filters_loop str_lower rest fs filtered
      else apply_filters_loop str_lower rest fs (filtered @ [(m, score)]))"

definition apply_filters ::
  "(string \<Rightarrow> string) \<Rightarrow> (metadata \<times> real) list \<Rightarrow> filters \<Rightarrow> (metadata \<times> real) list" where
  "apply_filters str_lower results fs = apply_filters_loop str_lower results fs []"

definition to_document :: "metadata \<times> real \<Rightarrow> document" where
  "to_document r = \<lparr>doc_text = chunk_text (fst r), doc_metadata = fst r, vector_score = snd r\<rparr>"

definition to_search_result :: "scored_document \<Rightarrow> search_result" where
  "to_search_result doc =
     \<lparr>sr_text = doc_text doc,
      sr_metadata =
        \<lparr>rm_file_name = file_name (doc_metadata doc),
         rm_page_number = page_number (doc_metadata doc),
         rm_resource_id = resource_id (doc_metadata doc),
         rm_chunk_id = chunk_id (doc_metadata doc)\<rparr>,
      sr_rerank_score = rerank_score doc,
      sr_vector_score = vector_score doc\<rparr>"

text \<open>
  The first half of \<open>SearchService.search\<close>: recall, then the filters.  \<open>embed_query\<close> is the
  embedding model, a parameter.
\<close>

definition candidates ::
  "(string \<Rightarrow> string) \<Rightarrow> (string \<Rightarrow> vector) \<Rightarrow> vector_store \<Rightarrow> string \<Rightarrow> filters option \<Rightarrow>
   int \<Rightarrow> int \<Rightarrow> (metadata \<times> real) list" where
  "candidates str_lower embed_query vs query fs offset limit =
     (let candidates_needed = max 50 (offset + limit + 10);
          query_embedding = embed_query query;
          initial_results = search query_embedding (nat candidates_needed) vs
      in case fs of
           None \<Rightarrow> initial_results
         | Some f \<Rightarrow> if f \<noteq> [] then apply_filters str_lower initial_results f else initial_results)"

text \<open>The second half, up to \<open>reranked\<close>; it is only reached with a non-empty candidate list.\<close>

definition reranked_of :: "(string \<Rightarrow> string \<Rightarrow> real) \<Rightarrow> string \<Rightarrow> (metadata \<times> real) list \<Rightarrow> int \<Rightarrow> int \<Rightarrow> scored_document list" where
  "reranked_of predict query initial_results offset limit =
     (let documents = map to_document initial_results;
          rerank_top_k = min (int (length documents)) (offset + limit + 10)
      in rerank predict query documents rerank_top_k)"

text \<open>\<open>SearchService.search\<close>.  The parameter \<open>top_k\<close> is accepted and never read.\<close>

definition service_search ::
  "(string \<Rightarrow> string) \<Rightarrow> (string \<Rightarrow> vector) \<Rightarrow> (string \<Rightarrow> string \<Rightarrow> real) \<Rightarrow> vector_store \<Rightarrow>
   string \<Rightarrow> filters option \<Rightarrow> int \<Rightarrow> int \<Rightarrow> int \<Rightarrow> search_response" where
  "service_search str_lower embed_query predict vs query fs top_k offset limit =
     (let initial_results = candidates str_lower embed_query vs query fs offset limit
      in if initial_results = [] then
           \<lparr>resp_query = query, resp_results = [], total_found = 0, has_more = False,
            resp_offset = offset, resp_limit = limit\<rparr>
         else
           let reranked = reranked_of predict query initial_results offset limit;
               end_idx = offset + limit;
               paginated_results = py_slice reranked offset end_idx;
               more = (end_idx < int (length reranked));
               search_results = map to_search_result paginated_results
           in \<lparr>resp_query = query, resp_results = search_results,
               total_found = length reranked, has_more = more,
               resp_offset = offset, resp_limit = limit\<rparr>)"

text \<open>
  The value of the variable \<open>reranked\<close> in a call of \<open>SearchService.search\<close>; the early return
  for an empty candidate list reranks nothing.
\<close>

definition reranked_sequence ::
  "(string \<Rightarrow> string) \<Rightarrow> (string \<Rightarrow> vector) \<Rightarrow> (string \<Rightarrow> string \<Rightarrow> real) \<Rightarrow> vector_store \<Rightarrow>
   string \<Rightarrow> filters option \<Rightarrow> int \<Rightarrow> int \<Rightarrow> scored_document list" where
  "reranked_sequence str_lower embed_query predict vs query fs offset limit =
     (let initial_results = candidates str_lower embed_query vs query fs offset limit
      in if initial_results = [] then []
         else reranked_of predict query initial_results offset limit)"

section \<open>ResourceService\<close>

text \<open>
  The upload directory maps a file name to a flag: \<open>True\<close> when the operating system lets
  the file be removed.  \<open>Path.unlink\<close> raises when it does not, or when the file is absent.
\<close>

type_synonym upload_dir = "string \<rightharpoonup> bool"

definition path_exists :: "upload_dir \<Rightarrow> string \<Rightarrow> bool" where
  "path_exists ud p = (ud p \<noteq> None)"

definition unlink :: "upload_dir \<Rightarrow> string \<Rightarrow> error + upload_dir" where
  "unlink ud p =
     (case ud p of
        None \<Rightarrow> Inl FileNotFoundError
      | Some removable \<Rightarrow> if removable then Inr (ud(p := None)) else Inl OSError)"

text \<open>The loop over \<open>['.pdf', '.docx']\<close>: the first file that exists is removed, then \<open>break\<close>.\<close>

fun remove_upload :: "string list \<Rightarrow> string \<Rightarrow> upload_dir \<Rightarrow> error + upload_dir" where
  "remove_upload [] rid ud = Inr ud"
| "remove_upload (ext # exts) rid ud =
     (if path_exists ud (rid @ ext) then unlink ud (rid @ ext)
      else remove_upload exts rid ud)"

record app =
  app_store :: vector_store
  app_disk :: disk
  app_uploads :: upload_dir

text \<open>
  \<open>ResourceService.delete_resource\<close> returns the raised error or the count, and the state it
  leaves behind in both cases.
\<close>

definition service_delete_resource :: "string \<Rightarrow> app \<Rightarrow> (error + nat) \<times> app" where
  "service_delete_resource rid a =
     (let (deleted_count, vs, dk) = delete_resource rid (app_store a, app_disk a);
          a' = a\<lparr>app_store := vs, app_disk := dk\<rparr>
      in if deleted_count = 0 then (Inl ValueError, a')
         else case remove_upload [''.pdf'', ''.docx''] rid (app_uploads a') of
                Inl e \<Rightarrow> (Inl e, a')
              | Inr ud \<Rightarrow> (Inr deleted_count, a'\<lparr>app_uploads := ud\<rparr>))"

section \<open>The store as a state machine\<close>

text \<open>
  The operations that change the in-memory store or its two files, as the services call
  them.  An operation that raises leaves the state as it was, as the exception does:
  \<open>add_documents\<close> and \<open>load\<close> raise before they assign anything.  \<open>Restart\<close> is a new
  process constructing \<open>VectorStore\<close> over the same directory.
\<close>

definition no_files :: disk where
  "no_files = \<lparr>index_file = None, metadata_file = None\<rparr>"

datatype operation =
    AddDocuments "vector list" "metadata list"
  | DeleteResource string
  | Save
  | Load
  | Restart nat

fun step :: "operation \<Rightarrow> vector_store \<times> disk \<Rightarrow> vector_store \<times> disk" where
  "step (AddDocuments embeddings metadatas) (vs, dk) =
     (case add_documents embeddings metadatas vs of Inl e \<Rightarrow> (vs, dk) | Inr vs' \<Rightarrow> (vs', dk))"
| "step (DeleteResource rid) (vs, dk) = snd (delete_resource rid (vs, dk))"
| "step Save (vs, dk) = (vs, save vs dk)"
| "step Load (vs, dk) = (case load vs dk of Inl e \<Rightarrow> (vs, dk) | Inr vs' \<Rightarrow> (vs', dk))"
| "step (Restart dimen) (vs, dk) = (vector_store_init dimen dk, dk)"

definition run :: "operation list \<Rightarrow> vector_store \<times> disk \<Rightarrow> vector_store \<times> disk" where
  "run ops s = fold step ops s"

definition fresh :: "nat \<Rightarrow> vector_store \<times> disk" where
  "fresh dimen = (vector_store_init dimen no_files, no_files)"

text \<open>
  Alignment: as many stored vectors as metadata entries, in memory and in the files (which
  are both present or both absent).
\<close>

definition files_aligned :: "disk \<Rightarrow> bool" where
  "files_aligned dk =
     (case index_file dk of
        None \<Rightarrow> metadata_file dk = None
      | Some ix \<Rightarrow> (case metadata_file dk of None \<Rightarrow> False | Some ms \<Rightarrow> length (xb ix) = length ms))"

definition aligned :: "vector_store \<times> disk \<Rightarrow> bool" where
  "aligned s = (length (xb (index (fst s))) = length (metadata_store (fst s)) \<and> files_aligned (snd s))"

text \<open>
  The store in the words of the specification: one sequence of chunks, each a vector
  together with the metadata that describes it.  \<open>chunk_step\<close> is what each operation
  means on that sequence; \<open>chunks_of\<close> pairs the stored vectors with the metadata entries
  by position.
\<close>

record chunk_store =
  cs_dimension :: nat
  cs_d :: nat
  cs_chunks :: "(vector \<times> metadata) list"

type_synonym chunk_file = "(nat \<times> (vector \<times> metadata) list) option"

definition mark_chunk :: "string \<Rightarrow> vector \<times> metadata \<Rightarrow> vector \<times> metadata" where
  "mark_chunk rid c =
     (if resource_id (snd c) = rid \<and> \<not> deleted (snd c) then (fst c, (snd c)\<lparr>deleted := True\<rparr>) else c)"

fun chunk_step :: "operation \<Rightarrow> chunk_store \<times> chunk_file \<Rightarrow> chunk_store \<times> chunk_file" where
  "chunk_step (AddDocuments embeddings metadatas) (cs, f) =
     (if length embeddings = length metadatas \<and> list_all (\<lambda>v. length v = cs_d cs) (map normalize_L2 embeddings)
      then (cs\<lparr>cs_chunks := cs_chunks cs @ zip (map normalize_L2 embeddings) metadatas\<rparr>, f)
      else (cs, f))"
| "chunk_step (DeleteResource rid) (cs, f) =
     (let cs' = cs\<lparr>cs_chunks := map (mark_chunk rid) (cs_chunks cs)\<rparr>
      in (cs', if list_ex (\<lambda>c. resource_id (snd c) = rid \<and> \<not> deleted (snd c)) (cs_chunks cs)
               then Some (cs_d cs', cs_chunks cs') else f))"
| "chunk_step Save (cs, f) = (cs, Some (cs_d cs, cs_chunks cs))"
| "chunk_step Load (cs, f) =
     (case f of None \<Rightarrow> (cs, f) | Some (d, chunks) \<Rightarrow> (cs\<lparr>cs_d := d, cs_chunks := chunks\<rparr>, f))"
| "chunk_step (Restart dimen) (cs, f) =
     (case f of
        None \<Rightarrow> (\<lparr>cs_dimension = dimen, cs_d = dimen, cs_chunks = []\<rparr>, f)
      | Some (d, chunks) \<Rightarrow> (\<lparr>cs_dimension = dimen, cs_d = d, cs_chunks = chunks\<rparr>, f))"

definition chunks_of :: "vector_store \<times> disk \<Rightarrow> chunk_store \<times> chunk_file" where
  "chunks_of s =
     (\<lparr>cs_dimension = dimension (fst s), cs_d = faiss_d (index (fst s)),
       cs_chunks = zip (xb (index (fst s))) (metadata_store (fst s))\<rparr>,
      case index_file (snd s) of
        None \<Rightarrow> None
      | Some ix \<Rightarrow>
          (case metadata_file (snd s) of
             None \<Rightarrow> None
           | Some ms \<Rightarrow> Some (faiss_d ix, zip (xb ix) ms)))"

section \<open>UploadService and the requests that reach the store\<close>

text \<open>
  \<open>UploadService.process_upload\<close>, the only caller of \<open>add_documents\<close>: the resource id is a
  new \<open>uuid4\<close>; no chunk raises \<open>ValueError\<close>; every chunk of the upload gets the same
  resource id, file name and \<open>uploaded_at\<close> and \<open>deleted = False\<close>; then \<open>add_documents\<close> and
  \<open>save\<close>.  A chunk is its own \<open>uuid4\<close> id, its text and its page.  The checks of file type
  and size and the extraction of the text come before and do not touch the store; the
  embedding model is the parameter \<open>embed_texts\<close>.
\<close>

type_synonym chunk = "string \<times> string \<times> int"

definition upload_metadatas :: "string \<Rightarrow> string \<Rightarrow> string \<Rightarrow> chunk list \<Rightarrow> metadata list" where
  "upload_metadatas rid fname up chunks =
     map (\<lambda>(cid, txt, page).
            \<lparr>chunk_id = cid, resource_id = rid, file_name = fname, page_number = page,
             chunk_text = txt, uploaded_at = up, deleted = False\<rparr>) chunks"

definition process_upload ::
  "(string list \<Rightarrow> vector list) \<Rightarrow> string \<Rightarrow> string \<Rightarrow> string \<Rightarrow> chunk list \<Rightarrow>
   vector_store \<times> disk \<Rightarrow> error + vector_store \<times> disk" where
  "process_upload embed_texts rid fname up chunks s =
     (if chunks = [] then Inl ValueError
      else
        let texts = map (\<lambda>(cid, txt, page). txt) chunks;
            embeddings = embed_texts texts;
            metadatas = upload_metadatas rid fname up chunks
        in case add_documents embeddings metadatas (fst s) of
             Inl e \<Rightarrow> Inl e
           | Inr vs \<Rightarrow> Inr (vs, save vs (snd s)))"

text \<open>
  What the application does to the store: an upload, a deletion through
  \<open>ResourceService.delete_resource\<close>, and a new start of the process.  A request that raises
  leaves the store as it was.
\<close>

datatype request =
    Upload string string string "chunk list"
  | Delete string
  | Reboot nat

fun serve :: "(string list \<Rightarrow> vector list) \<Rightarrow> request \<Rightarrow> vector_store \<times> disk \<Rightarrow> vector_store \<times> disk" where
  "serve embed_texts (Upload rid fname up chunks) s =
     (case process_upload embed_texts rid fname up chunks s of Inl e \<Rightarrow> s | Inr s' \<Rightarrow> s')"
| "serve embed_texts (Delete rid) s = snd (delete_resource rid s)"
| "serve embed_texts (Reboot dimen) s = (vector_store_init dimen (snd s), snd s)"

definition serve_all :: "(string list \<Rightarrow> vector list) \<Rightarrow> request list \<Rightarrow> vector_store \<times> disk \<Rightarrow> vector_store \<times> disk" where
  "serve_all embed_texts requests s = fold (serve embed_texts) requests s"

text \<open>
  What \<open>str(uuid.uuid4())\<close> gives an upload: a non-empty string that is the resource id of
  no stored chunk.  A request list is admissible when each of its uploads has such an id
  in the state it meets.
\<close>

fun uuid_fresh :: "request \<Rightarrow> vector_store \<times> disk \<Rightarrow> bool" where
  "uuid_fresh (Upload rid fname up chunks) s =
     (rid \<noteq> [] \<and> rid \<notin> set (map resource_id (metadata_store (fst s))))"
| "uuid_fresh (Delete rid) s = True"
| "uuid_fresh (Reboot dimen) s = True"

fun admissible :: "(string list \<Rightarrow> vector list) \<Rightarrow> request list \<Rightarrow> vector_store \<times> disk \<Rightarrow> bool" where
  "admissible embed_texts [] s = True"
| "admissible embed_texts (r # rs) s =
     (uuid_fresh r s \<and> admissible embed_texts rs (serve embed_texts r s))"

text \<open>
  One file name and one \<open>uploaded_at\<close> per resource id, and no empty resource id: what
  uploads with fresh ids establish.
\<close>

definition uniform :: "metadata list \<Rightarrow> bool" where
  "uniform ms =
     (\<forall>m \<in> set ms. resource_id m \<noteq> [] \<and>
        (\<forall>m' \<in> set ms. resource_id m' = resource_id m \<longrightarrow>
           file_name m' = file_name m \<and> uploaded_at m' = uploaded_at m))"

definition uniform_state :: "vector_store \<times> disk \<Rightarrow> bool" where
  "uniform_state s =
     (uniform (metadata_store (fst s)) \<and>
      (case metadata_file (snd s) of None \<Rightarrow> True | Some ms \<Rightarrow> uniform ms))"

section \<open>Example states\<close>

definition mk_chunk :: "string \<Rightarrow> string \<Rightarrow> string \<Rightarrow> string \<Rightarrow> bool \<Rightarrow> metadata" where
  "mk_chunk cid rid fname up del =
     \<lparr>chunk_id = cid, resource_id = rid, file_name = fname, page_number = 1,
      chunk_text = ''text of '' @ cid, uploaded_at = up, deleted = del\<rparr>"

text \<open>Three stored chunks; the two that score best for the query \<open>[1, 0]\<close> are deleted.\<close>

definition store3 :: vector_store where
  "store3 =
     \<lparr>dimension = 2,
      index = \<lparr>faiss_d = 2, xb = [[1, 0], [3/5, 4/5], [0, 1]]\<rparr>,
      metadata_store =
        [mk_chunk ''c1'' ''R1'' ''a.pdf'' ''2024-01-01'' True,
         mk_chunk ''c2'' ''R1'' ''a.pdf'' ''2024-01-01'' True,
         mk_chunk ''c3'' ''R2'' ''b.docx'' ''2024-01-02'' False]\<rparr>"

definition empty_store :: vector_store where
  "empty_store = \<lparr>dimension = 2, index = \<lparr>faiss_d = 2, xb = []\<rparr>, metadata_store = []\<rparr>"

text \<open>Three live chunks, two of resource \<open>R1\<close>.\<close>

definition store_ab :: vector_store where
  "store_ab =
     \<lparr>dimension = 2,
      index = \<lparr>faiss_d = 2, xb = [[1, 0], [0, 1], [3/5, 4/5]]\<rparr>,
      metadata_store =
        [mk_chunk ''c1'' ''R1'' ''a.pdf'' ''2024-01-01'' False,
         mk_chunk ''c2'' ''R2'' ''b.docx'' ''2024-01-02'' False,
         mk_chunk ''c3'' ''R1'' ''a.pdf'' ''2024-01-01'' False]\<rparr>"

definition example_ops :: "operation list" where
  "example_ops =
     [AddDocuments [[1, 0], [0, 1]]
        [mk_chunk ''c1'' ''R1'' ''a.pdf'' ''2024-01-01'' False,
         mk_chunk ''c2'' ''R1'' ''a.pdf'' ''2024-01-01'' False],
      Save,
      AddDocuments [[1, 0]] [],
      DeleteResource ''R1'',
      Restart 2]"

text \<open>A cross-encoder that scores by the text alone, and three documents.\<close>

definition example_predict :: "string \<Rightarrow> string \<Rightarrow> real" where
  "example_predict q t = (if t = ''a'' then 2 else if t = ''b'' then 4 else 3)"

definition example_docs :: "document list" where
  "example_docs =
     [\<lparr>doc_text = ''a'', doc_metadata = mk_chunk ''c1'' ''R1'' ''a.pdf'' ''2024-01-01'' False, vector_score = 9/10\<rparr>,
      \<lparr>doc_text = ''b'', doc_metadata = mk_chunk ''c2'' ''R2'' ''b.docx'' ''2024-01-02'' False, vector_score = 8/10\<rparr>,
      \<lparr>doc_text = ''c'', doc_metadata = mk_chunk ''c3'' ''R1'' ''a.pdf'' ''2024-01-01'' False, vector_score = 7/10\<rparr>]"

text \<open>An embedding model that maps every query to \<open>[1, 0]\<close>.\<close>

definition example_embed :: "string \<Rightarrow> vector" where
  "example_embed q = [1, 0]"

text \<open>
  An instance of \<open>str_lower\<close> for the examples: what \<open>str.lower\<close> does on a string of ASCII
  characters.
\<close>

definition ascii_lower_char :: "char \<Rightarrow> char" where
  "ascii_lower_char c =
     (if CHR ''A'' \<le> c \<and> c \<le> CHR ''Z'' then char_of (of_char c + (32::nat)) else c)"

definition ascii_lower :: "string \<Rightarrow> string" where
  "ascii_lower s = map ascii_lower_char s"


text \<open>
  Two application states over \<open>store_ab\<close>: the upload of \<open>R1\<close> can be removed in the first
  and cannot in the second.
\<close>

definition removable_app :: app where
  "removable_app =
     \<lparr>app_store = store_ab, app_disk = no_files, app_uploads = [''R1.pdf'' \<mapsto> True]\<rparr>"

definition locked_app :: app where
  "locked_app =
     \<lparr>app_store = store_ab, app_disk = no_files, app_uploads = [''R1.pdf'' \<mapsto> False]\<rparr>"

text \<open>
  An embedding model that maps every text to \<open>[1, 0]\<close>, and a history: two uploads, the
  second resource deleted, a third upload, a restart.
\<close>

definition example_embed_texts :: "string list \<Rightarrow> vector list" where
  "example_embed_texts texts = map (\<lambda>t. [1, 0]) texts"

definition example_requests :: "request list" where
  "example_requests =
     [Upload ''R1'' ''a.pdf'' ''2024-01-01'' [(''c1'', ''one'', 1), (''c2'', ''two'', 2)],
      Upload ''R2'' ''b.docx'' ''2024-01-02'' [(''c3'', ''three'', 1)],
      Delete ''R2'',
      Upload ''R3'' ''c.pdf'' ''2024-01-03'' [(''c4'', ''four'', 1)],
      Reboot 2]"

section \<open>VectorStore.search\<close>

lemma collect_results_eq:
  "collect_results ms ps acc =
     acc @ map (\<lambda>(i, s). (ms ! i, s)) (filter (\<lambda>(i, s). i < length ms \<and> \<not> deleted (ms ! i)) ps)"
  by (induction ms ps acc rule: collect_results.induct) (auto simp: Let_def)

lemma zip_map_self: "zip xs (map f xs) = map (\<lambda>i. (i, f i)) xs"
  by (induction xs) auto

lemma search_eq:
  "search q k vs =
     (let ms = metadata_store vs; ix = index vs; q' = normalize_L2 q in
      map (\<lambda>i. (ms ! i, inner_product q' (xb ix ! i)))
        (filter (\<lambda>i. i < length ms \<and> \<not> deleted (ms ! i))
           (take (min k (ntotal ix)) (ranking ix q'))))"
  by (auto simp: search_def index_search_def Let_def collect_results_eq zip_map_self
        filter_map comp_def ranking_def ntotal_def)

lemma ranking_sorted:
  "sorted_wrt (\<lambda>i j. inner_product q (xb ix ! i) \<ge> inner_product q (xb ix ! j)) (ranking ix q)"
proof -
  have "sorted (map (\<lambda>i. - inner_product q (xb ix ! i)) (ranking ix q))"
    unfolding ranking_def by (rule sorted_sort_key)
  then show ?thesis
    by (simp add: sorted_map sorted_wrt_iff_nth_less)
qed

lemma sorted_wrt_take: "sorted_wrt P xs \<Longrightarrow> sorted_wrt P (take n xs)"
  by (metis append_take_drop_id sorted_wrt_append)

lemma search_descending: "sorted_wrt (\<ge>) (map snd (search q k vs))"
proof -
  let ?q = "normalize_L2 q" and ?ix = "index vs"
  have "sorted_wrt (\<lambda>i j. inner_product ?q (xb ?ix ! i) \<ge> inner_product ?q (xb ?ix ! j))
          (filter (\<lambda>i. i < length (metadata_store vs) \<and> \<not> deleted (metadata_store vs ! i))
             (take (min k (ntotal ?ix)) (ranking ?ix ?q)))"
    by (intro sorted_wrt_filter sorted_wrt_take ranking_sorted)
  then show ?thesis
    by (simp add: search_eq Let_def sorted_wrt_map comp_def)
qed

lemma search_live: "(m, s) \<in> set (search q k vs) \<Longrightarrow> \<not> deleted m"
  by (auto simp: search_eq Let_def)

lemma mset_ranking: "mset (ranking ix q) = mset [0..<ntotal ix]"
  by (simp add: ranking_def)

lemma search_all_live:
  assumes "ntotal (index vs) = length (metadata_store vs)" "ntotal (index vs) \<le> k"
  shows "mset (map fst (search q k vs)) = mset (filter (\<lambda>m. \<not> deleted m) (metadata_store vs))"
proof -
  let ?ms = "metadata_store vs" and ?ix = "index vs" and ?q = "normalize_L2 q"
  let ?P = "\<lambda>i. i < length ?ms \<and> \<not> deleted (?ms ! i)"
  have len: "length (ranking ?ix ?q) = ntotal ?ix" by (simp add: ranking_def)
  have "map fst (search q k vs) = map (\<lambda>i. ?ms ! i) (filter ?P (ranking ?ix ?q))"
    using assms len by (simp add: search_eq Let_def comp_def min_absorb2)
  then have "mset (map fst (search q k vs)) = image_mset (\<lambda>i. ?ms ! i) (filter_mset ?P (mset (ranking ?ix ?q)))"
    by (simp only: mset_map mset_filter)
  also have "\<dots> = image_mset (\<lambda>i. ?ms ! i) (filter_mset ?P (mset [0..<length ?ms]))"
    using assms by (simp only: mset_ranking)
  also have "\<dots> = mset (map (\<lambda>i. ?ms ! i) (filter ?P [0..<length ?ms]))"
    by (simp only: mset_map mset_filter)
  also have "filter ?P [0..<length ?ms] = filter (\<lambda>i. \<not> deleted (?ms ! i)) [0..<length ?ms]"
    by (rule filter_cong) auto
  also have "map (\<lambda>i. ?ms ! i) (filter (\<lambda>i. \<not> deleted (?ms ! i)) [0..<length ?ms])
      = filter (\<lambda>m. \<not> deleted m) (map (\<lambda>i. ?ms ! i) [0..<length ?ms])"
    by (simp add: filter_map comp_def)
  also have "map (\<lambda>i. ?ms ! i) [0..<length ?ms] = ?ms" by (rule map_nth)
  finally show ?thesis .
qed

lemma normalize_unit: "normalize_L2 [1, 0] = [1, 0]"
  by (simp add: normalize_L2_def inner_product_def)

lemma ranking_store3: "ranking (index store3) [1, 0] = [0, 1, 2]"
  by (simp add: ranking_def store3_def ntotal_def inner_product_def upt_rec)

text \<open>
  C1 (as amended).  For every index state and every \<open>k \<ge> 1\<close>, \<open>search\<close> returns its entries
  in descending score order and never returns an entry marked deleted.  What it returns
  are the live entries among the \<open>min k ntotal\<close> best-scoring stored entries, deleted ones
  counted, each with its inner-product score.  It returns every live entry when the store
  is aligned and \<open>k\<close> is at least the number of stored entries, and the empty list when
  the index is empty.
\<close>

theorem search_ranked_live:
  assumes "1 \<le> k"
  shows "sorted_wrt (\<ge>) (map snd (search q k vs))
       \<and> (\<forall>r \<in> set (search q k vs). \<not> deleted (fst r))
       \<and> search q k vs =
           map (\<lambda>i. (metadata_store vs ! i, inner_product (normalize_L2 q) (xb (index vs) ! i)))
             (filter (\<lambda>i. i < length (metadata_store vs) \<and> \<not> deleted (metadata_store vs ! i))
                (take (min k (ntotal (index vs))) (ranking (index vs) (normalize_L2 q))))
       \<and> (ntotal (index vs) = length (metadata_store vs) \<and> ntotal (index vs) \<le> k \<longrightarrow>
            mset (map fst (search q k vs)) = mset (filter (\<lambda>m. \<not> deleted m) (metadata_store vs)))
       \<and> (ntotal (index vs) = 0 \<longrightarrow> search q k vs = [])"
proof -
  have live: "\<forall>r \<in> set (search q k vs). \<not> deleted (fst r)"
    using search_live by fastforce
  have chr: "search q k vs =
           map (\<lambda>i. (metadata_store vs ! i, inner_product (normalize_L2 q) (xb (index vs) ! i)))
             (filter (\<lambda>i. i < length (metadata_store vs) \<and> \<not> deleted (metadata_store vs ! i))
                (take (min k (ntotal (index vs))) (ranking (index vs) (normalize_L2 q))))"
    by (simp add: search_eq Let_def)
  have emp: "ntotal (index vs) = 0 \<longrightarrow> search q k vs = []"
    by (simp add: search_def)
  show ?thesis
    using search_descending[of q k vs] live chr search_all_live[of vs k q] emp by blast
qed

text \<open>The theorem at \<open>store3\<close> with \<open>k = 3\<close> and at the empty store with \<open>k = 1\<close>.\<close>

theorem search_ranked_live_witness:
  "(1::nat) \<le> 3
   \<and> ntotal (index store3) = length (metadata_store store3) \<and> ntotal (index store3) \<le> 3
   \<and> mset (map fst (search [1, 0] 3 store3)) = mset (filter (\<lambda>m. \<not> deleted m) (metadata_store store3))
   \<and> search [1, 0] 3 store3 = [(mk_chunk ''c3'' ''R2'' ''b.docx'' ''2024-01-02'' False, 0)]
   \<and> ntotal (index empty_store) = 0 \<and> search [1, 0] 1 empty_store = []"
proof -
  have k3: "(1::nat) \<le> 3" and k1: "(1::nat) \<le> 1" by simp_all
  have al: "ntotal (index store3) = length (metadata_store store3) \<and> ntotal (index store3) \<le> 3"
    by (simp add: store3_def ntotal_def)
  have em: "ntotal (index empty_store) = 0"
    by (simp add: empty_store_def ntotal_def)
  have all_live: "mset (map fst (search [1, 0] 3 store3)) = mset (filter (\<lambda>m. \<not> deleted m) (metadata_store store3))"
    using search_ranked_live[OF k3, of "[1, 0]" store3] al by blast
  have "search [1, 0] 3 store3 =
      map (\<lambda>i. (metadata_store store3 ! i, inner_product (normalize_L2 [1, 0]) (xb (index store3) ! i)))
        (filter (\<lambda>i. i < length (metadata_store store3) \<and> \<not> deleted (metadata_store store3 ! i))
           (take (min 3 (ntotal (index store3))) (ranking (index store3) (normalize_L2 [1, 0]))))"
    using search_ranked_live[OF k3, of "[1, 0]" store3] by blast
  then have res: "search [1, 0] 3 store3 = [(mk_chunk ''c3'' ''R2'' ''b.docx'' ''2024-01-02'' False, 0)]"
    by (simp add: normalize_unit ranking_store3)
      (simp add: store3_def ntotal_def mk_chunk_def inner_product_def)
  have "search [1, 0] 1 empty_store = []"
    using search_ranked_live[OF k1, of "[1, 0]" empty_store] em by blast
  with k3 al em all_live res show ?thesis by blast
qed

text \<open>
  C1 as stated fails: \<open>k = 2\<close> exceeds the one live entry of \<open>store3\<close>, the index hands back
  the two deleted entries, and the live one is not returned.
\<close>

theorem search_all_live_counterexample:
  "(1::nat) \<le> 2
   \<and> filter (\<lambda>m. \<not> deleted m) (metadata_store store3) = [mk_chunk ''c3'' ''R2'' ''b.docx'' ''2024-01-02'' False]
   \<and> length (filter (\<lambda>m. \<not> deleted m) (metadata_store store3)) < 2
   \<and> search [1, 0] 2 store3 = []"
proof -
  have "ntotal (index store3) = 3"
    by (simp add: store3_def ntotal_def)
  then have "search [1, 0] 2 store3 = []"
    by (simp add: search_def index_search_def normalize_unit ranking_store3)
      (simp add: store3_def mk_chunk_def)
  then show ?thesis
    by (simp add: store3_def mk_chunk_def)
qed

section \<open>VectorStore.delete_resource\<close>

lemma delete_loop_eq:
  "delete_loop rid ms visited c =
     (visited @ map (\<lambda>m. if resource_id m = rid \<and> \<not> deleted m then m\<lparr>deleted := True\<rparr> else m) ms,
      c + length (filter (\<lambda>m. resource_id m = rid \<and> \<not> deleted m) ms))"
  by (induction rid ms visited c rule: delete_loop.induct) auto

lemma delete_resource_eq:
  "delete_resource rid (vs, dk) =
     (let ms = map (\<lambda>m. if resource_id m = rid \<and> \<not> deleted m then m\<lparr>deleted := True\<rparr> else m) (metadata_store vs);
          n = length (filter (\<lambda>m. resource_id m = rid \<and> \<not> deleted m) (metadata_store vs));
          vs' = vs\<lparr>metadata_store := ms\<rparr>
      in (n, vs', if n > 0 then save vs' dk else dk))"
  by (simp add: delete_resource_def delete_loop_eq Let_def)

lemma filter_marked_empty:
  "filter (\<lambda>m. resource_id m = rid \<and> \<not> deleted m)
     (map (\<lambda>m. if resource_id m = rid \<and> \<not> deleted m then m\<lparr>deleted := True\<rparr> else m) ms) = []"
  by (induction ms) auto

lemma newly_marked_pairs:
  "filter (\<lambda>(m, m'). \<not> deleted m \<and> deleted m')
     (zip ms (map (\<lambda>m. if resource_id m = rid \<and> \<not> deleted m then m\<lparr>deleted := True\<rparr> else m) ms))
   = map (\<lambda>m. (m, m\<lparr>deleted := True\<rparr>)) (filter (\<lambda>m. resource_id m = rid \<and> \<not> deleted m) ms)"
  by (induction ms) auto

text \<open>
  C6.  \<open>delete_resource r\<close> returns the number of entries of resource \<open>r\<close> that were not yet
  deleted; afterwards every entry of \<open>r\<close> is deleted, and the entries that went from live
  to deleted are exactly that many; a second call right after returns 0.
\<close>

theorem delete_resource_idempotent:
  assumes "delete_resource rid (vs, dk) = (n, vs', dk')"
  shows "n = length (filter (\<lambda>m. resource_id m = rid \<and> \<not> deleted m) (metadata_store vs))
       \<and> (\<forall>i < length (metadata_store vs).
             resource_id (metadata_store vs ! i) = rid \<longrightarrow> deleted (metadata_store vs' ! i))
       \<and> n = length (filter (\<lambda>(m, m'). \<not> deleted m \<and> deleted m')
                       (zip (metadata_store vs) (metadata_store vs')))
       \<and> fst (delete_resource rid (vs', dk')) = 0"
proof -
  let ?ms = "metadata_store vs"
  let ?f = "\<lambda>m. if resource_id m = rid \<and> \<not> deleted m then m\<lparr>deleted := True\<rparr> else m"
  from assms have n: "n = length (filter (\<lambda>m. resource_id m = rid \<and> \<not> deleted m) ?ms)"
    and ms': "metadata_store vs' = map ?f ?ms"
    by (auto simp: delete_resource_eq Let_def)
  have marked: "\<forall>i < length ?ms. resource_id (?ms ! i) = rid \<longrightarrow> deleted (metadata_store vs' ! i)"
    by (simp add: ms')
  have cnt: "n = length (filter (\<lambda>(m, m'). \<not> deleted m \<and> deleted m') (zip ?ms (metadata_store vs')))"
    by (simp add: ms' n newly_marked_pairs)
  have again: "fst (delete_resource rid (vs', dk')) = 0"
    by (simp add: delete_resource_eq Let_def ms' filter_marked_empty)
  from n marked cnt again show ?thesis by blast
qed

text \<open>Deleting \<open>R1\<close> from \<open>store_ab\<close> twice returns 2, then 0.\<close>

theorem delete_resource_idempotent_witness:
  "fst (delete_resource ''R1'' (store_ab, no_files)) = 2
   \<and> fst (delete_resource ''R1'' (snd (delete_resource ''R1'' (store_ab, no_files)))) = 0"
proof -
  obtain n vs' dk' where eq: "delete_resource ''R1'' (store_ab, no_files) = (n, vs', dk')"
    by (cases "delete_resource ''R1'' (store_ab, no_files)") auto
  from delete_resource_idempotent[OF eq]
  have "n = length (filter (\<lambda>m. resource_id m = ''R1'' \<and> \<not> deleted m) (metadata_store store_ab))"
    and "fst (delete_resource ''R1'' (vs', dk')) = 0"
    by blast+
  moreover have "length (filter (\<lambda>m. resource_id m = ''R1'' \<and> \<not> deleted m) (metadata_store store_ab)) = 2"
    by (simp add: store_ab_def mk_chunk_def)
  ultimately show ?thesis by (simp add: eq)
qed

text \<open>
  C10.  \<open>delete_resource\<close> leaves the index (the stored vectors) and the dimension as they
  were and keeps the number and the order of the metadata entries: the entry at each
  position is the old one, with \<open>deleted\<close> set when it belongs to the resource and was
  live, and untouched otherwise.  The files are rewritten from the new state when the
  count is positive and left alone otherwise.
\<close>

theorem delete_resource_frame:
  assumes "delete_resource rid (vs, dk) = (n, vs', dk')"
  shows "index vs' = index vs \<and> dimension vs' = dimension vs
       \<and> length (metadata_store vs') = length (metadata_store vs)
       \<and> (\<forall>i < length (metadata_store vs).
            metadata_store vs' ! i =
              (if resource_id (metadata_store vs ! i) = rid \<and> \<not> deleted (metadata_store vs ! i)
               then (metadata_store vs ! i)\<lparr>deleted := True\<rparr> else metadata_store vs ! i)
            \<and> chunk_id (metadata_store vs' ! i) = chunk_id (metadata_store vs ! i)
            \<and> resource_id (metadata_store vs' ! i) = resource_id (metadata_store vs ! i)
            \<and> file_name (metadata_store vs' ! i) = file_name (metadata_store vs ! i)
            \<and> page_number (metadata_store vs' ! i) = page_number (metadata_store vs ! i)
            \<and> chunk_text (metadata_store vs' ! i) = chunk_text (metadata_store vs ! i)
            \<and> uploaded_at (metadata_store vs' ! i) = uploaded_at (metadata_store vs ! i)
            \<and> (deleted (metadata_store vs' ! i) \<longleftrightarrow>
                 deleted (metadata_store vs ! i) \<or> resource_id (metadata_store vs ! i) = rid))
       \<and> dk' = (if n > 0 then save vs' dk else dk)"
proof -
  let ?f = "\<lambda>m. if resource_id m = rid \<and> \<not> deleted m then m\<lparr>deleted := True\<rparr> else m"
  from assms have ms': "metadata_store vs' = map ?f (metadata_store vs)"
    and rest: "index vs' = index vs" "dimension vs' = dimension vs"
      "dk' = (if n > 0 then save vs' dk else dk)"
    by (auto simp: delete_resource_eq Let_def)
  have len: "length (metadata_store vs') = length (metadata_store vs)"
    by (simp add: ms')
  have "\<forall>i < length (metadata_store vs).
            metadata_store vs' ! i = ?f (metadata_store vs ! i)"
    by (simp add: ms')
  with rest len show ?thesis by auto
qed

text \<open>In \<open>store_ab\<close>, deleting \<open>R1\<close> flags positions 0 and 2 and leaves position 1 as it was.\<close>

theorem delete_resource_frame_witness:
  "index (fst (snd (delete_resource ''R1'' (store_ab, no_files)))) = index store_ab
   \<and> metadata_store (fst (snd (delete_resource ''R1'' (store_ab, no_files)))) =
       [mk_chunk ''c1'' ''R1'' ''a.pdf'' ''2024-01-01'' True,
        mk_chunk ''c2'' ''R2'' ''b.docx'' ''2024-01-02'' False,
        mk_chunk ''c3'' ''R1'' ''a.pdf'' ''2024-01-01'' True]"
proof -
  obtain n vs' dk' where eq: "delete_resource ''R1'' (store_ab, no_files) = (n, vs', dk')"
    by (cases "delete_resource ''R1'' (store_ab, no_files)") auto
  note fr = delete_resource_frame[OF eq]
  have len: "length (metadata_store vs') = 3"
    using fr by (simp add: store_ab_def)
  have "metadata_store vs' ! 0 = mk_chunk ''c1'' ''R1'' ''a.pdf'' ''2024-01-01'' True"
    "metadata_store vs' ! 1 = mk_chunk ''c2'' ''R2'' ''b.docx'' ''2024-01-02'' False"
    "metadata_store vs' ! 2 = mk_chunk ''c3'' ''R1'' ''a.pdf'' ''2024-01-01'' True"
    using fr by (simp_all add: store_ab_def mk_chunk_def)
  with len have "metadata_store vs' =
       [mk_chunk ''c1'' ''R1'' ''a.pdf'' ''2024-01-01'' True,
        mk_chunk ''c2'' ''R2'' ''b.docx'' ''2024-01-02'' False,
        mk_chunk ''c3'' ''R1'' ''a.pdf'' ''2024-01-01'' True]"
    by (intro nth_equalityI) (auto simp: less_Suc_eq numeral_3_eq_3 numeral_2_eq_2)
  moreover have "index vs' = index store_ab" using fr by simp
  ultimately show ?thesis by (simp add: eq)
qed

section \<open>Alignment of vectors and metadata\<close>

lemma aligned_fresh: "aligned (fresh d)"
  by (simp add: aligned_def fresh_def files_aligned_def no_files_def vector_store_init_def
      load_if_exists_def load_def)

lemma chunks_of_fresh:
  "chunks_of (fresh d) = (\<lparr>cs_dimension = d, cs_d = d, cs_chunks = []\<rparr>, None)"
  by (simp add: chunks_of_def fresh_def no_files_def vector_store_init_def
      load_if_exists_def load_def)

lemma list_ex_zip_snd:
  "length xs = length ms \<Longrightarrow>
   list_ex (\<lambda>c. resource_id (snd c) = rid \<and> \<not> deleted (snd c)) (zip xs ms) =
     (filter (\<lambda>m. resource_id m = rid \<and> \<not> deleted m) ms \<noteq> [])"
  by (induction xs ms rule: list_induct2) auto

lemma zip_map_mark:
  "map (mark_chunk rid) (zip xs ms) =
   zip xs (map (\<lambda>m. if resource_id m = rid \<and> \<not> deleted m then m\<lparr>deleted := True\<rparr> else m) ms)"
  by (induction xs ms rule: list_induct2') (auto simp: mark_chunk_def)

lemma step_aligned: "aligned s \<Longrightarrow> aligned (step op s)"
proof (cases s)
  case (Pair vs dk)
  assume "aligned s"
  with Pair show ?thesis
    by (cases op)
      (auto simp: aligned_def files_aligned_def add_documents_def index_add_def
        delete_resource_eq Let_def save_def load_def vector_store_init_def load_if_exists_def
        split: option.splits if_splits sum.splits)
qed

lemma step_chunks: "aligned s \<Longrightarrow> chunks_of (step op s) = chunk_step op (chunks_of s)"
proof (cases s)
  case (Pair vs dk)
  assume al: "aligned s"
  show ?thesis
  proof (cases op)
    case (AddDocuments e m)
    with Pair al show ?thesis
      by (auto simp: aligned_def chunks_of_def add_documents_def index_add_def
          split: option.splits)
  next
    case (DeleteResource rid)
    with Pair al show ?thesis
      by (auto simp: aligned_def chunks_of_def delete_resource_eq Let_def save_def
          zip_map_mark list_ex_zip_snd split: option.splits)
  next
    case Save
    with Pair al show ?thesis
      by (auto simp: chunks_of_def save_def)
  next
    case Load
    with Pair al show ?thesis
      by (auto simp: chunks_of_def load_def split: option.splits)
  next
    case (Restart d)
    with Pair al show ?thesis
      by (auto simp: chunks_of_def vector_store_init_def load_if_exists_def load_def
          split: option.splits)
  qed
qed

lemma run_simulation:
  "aligned s \<Longrightarrow> aligned (run ops s) \<and> chunks_of (run ops s) = fold chunk_step ops (chunks_of s)"
  unfolding run_def
proof (induction ops arbitrary: s)
  case Nil
  then show ?case by simp
next
  case (Cons op ops)
  from Cons.prems have "aligned (step op s)" by (rule step_aligned)
  from Cons.IH[OF this] step_chunks[OF Cons.prems, of op] show ?case by simp
qed

text \<open>
  C2.  In every state reached from a new store over an empty directory by any sequence of
  \<open>add_documents\<close>, \<open>delete_resource\<close>, \<open>save\<close>, \<open>load\<close> and restarts, and again after any
  further operation, there are as many stored vectors as metadata entries, in memory and
  in the files; and the vectors paired by position with the metadata entries are the
  chunk sequence that the same operations build when every vector travels with its
  metadata: position \<open>i\<close> of the metadata describes position \<open>i\<close> of the vectors.
\<close>

theorem store_alignment:
  "ntotal (index (fst (run ops (fresh d)))) = length (metadata_store (fst (run ops (fresh d))))
   \<and> files_aligned (snd (run ops (fresh d)))
   \<and> aligned (step op (run ops (fresh d)))
   \<and> chunks_of (run ops (fresh d)) =
       fold chunk_step ops (\<lparr>cs_dimension = d, cs_d = d, cs_chunks = []\<rparr>, None)"
proof -
  have al: "aligned (run ops (fresh d))"
    and ch: "chunks_of (run ops (fresh d)) = fold chunk_step ops (chunks_of (fresh d))"
    using run_simulation[OF aligned_fresh] by blast+
  from al have "ntotal (index (fst (run ops (fresh d)))) = length (metadata_store (fst (run ops (fresh d))))"
    and "files_aligned (snd (run ops (fresh d)))"
    by (simp_all add: aligned_def ntotal_def)
  moreover from al have "aligned (step op (run ops (fresh d)))" by (rule step_aligned)
  ultimately show ?thesis using ch by (simp add: chunks_of_fresh)
qed

text \<open>
  The theorem at \<open>example_ops\<close>: two chunks added and saved, an \<open>add_documents\<close> that raises,
  the resource deleted, the process restarted.
\<close>

theorem store_alignment_witness:
  "ntotal (index (fst (run example_ops (fresh 2)))) = 2
   \<and> length (metadata_store (fst (run example_ops (fresh 2)))) = 2
   \<and> zip (xb (index (fst (run example_ops (fresh 2))))) (metadata_store (fst (run example_ops (fresh 2)))) =
       [([1, 0], mk_chunk ''c1'' ''R1'' ''a.pdf'' ''2024-01-01'' True),
        ([0, 1], mk_chunk ''c2'' ''R1'' ''a.pdf'' ''2024-01-01'' True)]"
proof -
  note th = store_alignment[of example_ops 2 Save]
  have n1: "normalize_L2 [1, 0] = [1, 0]" and n2: "normalize_L2 [0, 1] = [0, 1]"
    by (simp_all add: normalize_L2_def inner_product_def)
  have "fold chunk_step example_ops (\<lparr>cs_dimension = 2, cs_d = 2, cs_chunks = []\<rparr>, None) =
      (\<lparr>cs_dimension = 2, cs_d = 2, cs_chunks =
          [([1, 0], mk_chunk ''c1'' ''R1'' ''a.pdf'' ''2024-01-01'' True),
           ([0, 1], mk_chunk ''c2'' ''R1'' ''a.pdf'' ''2024-01-01'' True)]\<rparr>,
       Some (2, [([1, 0], mk_chunk ''c1'' ''R1'' ''a.pdf'' ''2024-01-01'' True),
                 ([0, 1], mk_chunk ''c2'' ''R1'' ''a.pdf'' ''2024-01-01'' True)]))"
    by (simp add: example_ops_def n1 n2 mark_chunk_def mk_chunk_def)
  with th have ch: "chunks_of (run example_ops (fresh 2)) =
      (\<lparr>cs_dimension = 2, cs_d = 2, cs_chunks =
          [([1, 0], mk_chunk ''c1'' ''R1'' ''a.pdf'' ''2024-01-01'' True),
           ([0, 1], mk_chunk ''c2'' ''R1'' ''a.pdf'' ''2024-01-01'' True)]\<rparr>,
       Some (2, [([1, 0], mk_chunk ''c1'' ''R1'' ''a.pdf'' ''2024-01-01'' True),
                 ([0, 1], mk_chunk ''c2'' ''R1'' ''a.pdf'' ''2024-01-01'' True)]))"
    by simp
  then have z: "zip (xb (index (fst (run example_ops (fresh 2))))) (metadata_store (fst (run example_ops (fresh 2)))) =
       [([1, 0], mk_chunk ''c1'' ''R1'' ''a.pdf'' ''2024-01-01'' True),
        ([0, 1], mk_chunk ''c2'' ''R1'' ''a.pdf'' ''2024-01-01'' True)]"
    by (simp add: chunks_of_def)
  from th have eq: "ntotal (index (fst (run example_ops (fresh 2)))) = length (metadata_store (fst (run example_ops (fresh 2))))"
    by blast
  have "length (zip (xb (index (fst (run example_ops (fresh 2))))) (metadata_store (fst (run example_ops (fresh 2))))) = 2"
    by (simp only: z) simp
  with eq have "length (metadata_store (fst (run example_ops (fresh 2)))) = 2"
    by (simp add: ntotal_def)
  with eq z show ?thesis by simp
qed

section \<open>Reranker.rerank\<close>

lemma map2_map_self: "map2 f xs (map g xs) = map (\<lambda>x. f x (g x)) xs"
  by (induction xs) auto

lemma py_slice_from_0: "py_slice xs 0 k = take (slice_index k (length xs)) xs"
  by (simp add: py_slice_def slice_index_def)

lemma rerank_eq:
  assumes "documents \<noteq> []"
  shows "rerank predict query documents top_k =
     (let scores = map (\<lambda>d. predict query (doc_text d)) documents;
          lo = Min (set scores); hi = Max (set scores);
          scored = map (\<lambda>d. add_score d
                     (if lo = hi then (if length documents = 1 then 1 else 1 / 2)
                      else (predict query (doc_text d) - lo) / (hi - lo))) documents
      in take (slice_index top_k (length documents)) (sort_key (\<lambda>x. - rerank_score x) scored))"
proof -
  let ?scores = "map (\<lambda>d. predict query (doc_text d)) documents"
  have "predict query (doc_text (hd documents)) \<in> set ?scores"
    using assms by (cases documents) auto
  then have "Min (set ?scores) \<le> predict query (doc_text (hd documents))"
    "predict query (doc_text (hd documents)) \<le> Max (set ?scores)"
    by simp_all
  then have "Min (set ?scores) \<le> Max (set ?scores)"
    by linarith
  then have *: "(Max (set ?scores) - Min (set ?scores) > 0) = (Min (set ?scores) \<noteq> Max (set ?scores))"
    by linarith
  have m: "map (\<lambda>(q, t). predict q t) (map (\<lambda>doc. (query, doc_text doc)) documents) = ?scores"
    by (simp add: comp_def)
  have "rerank predict query documents top_k =
      take (slice_index top_k (length documents))
        (sort_key (\<lambda>x. - rerank_score x)
          (map (\<lambda>d. add_score d
                  (if Max (set ?scores) - Min (set ?scores) > 0
                   then (predict query (doc_text d) - Min (set ?scores)) / (Max (set ?scores) - Min (set ?scores))
                   else if length documents = 1 then 1 else 1 / 2)) documents))"
    using assms unfolding rerank_def Let_def m
    by (simp only: map2_map_self py_slice_from_0 if_False length_sort length_map)
  also have "(\<lambda>d. add_score d
                  (if Max (set ?scores) - Min (set ?scores) > 0
                   then (predict query (doc_text d) - Min (set ?scores)) / (Max (set ?scores) - Min (set ?scores))
                   else if length documents = 1 then 1 else 1 / 2))
      = (\<lambda>d. add_score d
                  (if Min (set ?scores) = Max (set ?scores) then (if length documents = 1 then 1 else 1 / 2)
                   else (predict query (doc_text d) - Min (set ?scores)) / (Max (set ?scores) - Min (set ?scores))))"
    unfolding * by (rule ext) simp
  finally show ?thesis by (simp only: Let_def)
qed

lemma rerank_score_add_score [simp]: "rerank_score (add_score d s) = s"
  by (simp add: add_score_def document.extend_def)

lemma normalized_bounds:
  fixes s lo hi :: real
  assumes "lo \<le> s" "s \<le> hi"
  shows "0 \<le> (if lo = hi then (if n = (1::nat) then 1 else 1 / 2) else (s - lo) / (hi - lo))"
    and "(if lo = hi then (if n = (1::nat) then 1 else 1 / 2) else (s - lo) / (hi - lo)) \<le> 1"
  using assms by (auto simp: divide_le_eq)

lemma mset_take_subset: "mset (take n xs) \<subseteq># mset xs"
  by (metis append_take_drop_id mset_append mset_subset_eq_add_left)

text \<open>
  C3.  For a non-empty batch, with \<open>lo\<close> and \<open>hi\<close> the least and the greatest raw score:
  every candidate's \<open>rerank_score\<close> is \<open>(raw - lo) / (hi - lo)\<close> when \<open>lo \<noteq> hi\<close>, and lies in
  \<open>[0, 1]\<close>; \<open>lo = hi\<close> holds exactly when all raw scores are equal, and then the score is
  \<open>1\<close> for a batch of one and \<open>1/2\<close> for every candidate otherwise.  The output consists of
  scored candidates (all of them when \<open>top_k\<close> is at least their number), is in descending
  score order, and lists candidates with the same score in their order before the rerank.
\<close>

theorem rerank_normalized:
  assumes "documents \<noteq> []"
  shows "let scores = map (\<lambda>d. predict query (doc_text d)) documents;
             lo = Min (set scores); hi = Max (set scores);
             scored = map (\<lambda>d. add_score d
                        (if lo = hi then (if length documents = 1 then 1 else 1 / 2)
                         else (predict query (doc_text d) - lo) / (hi - lo))) documents;
             out = rerank predict query documents top_k
         in (\<forall>x \<in> set scored. 0 \<le> rerank_score x \<and> rerank_score x \<le> 1)
          \<and> (lo = hi \<longleftrightarrow> (\<forall>s \<in> set scores. s = hd scores))
          \<and> mset out \<subseteq># mset scored
          \<and> (int (length documents) \<le> top_k \<longrightarrow> mset out = mset scored)
          \<and> sorted_wrt (\<ge>) (map rerank_score out)
          \<and> (\<forall>v. prefix (filter (\<lambda>x. rerank_score x = v) out)
                         (filter (\<lambda>x. rerank_score x = v) scored))"
proof -
  define scores where "scores = map (\<lambda>d. predict query (doc_text d)) documents"
  define lo where "lo = Min (set scores)"
  define hi where "hi = Max (set scores)"
  define norm where "norm = (\<lambda>s::real. if lo = hi then (if length documents = 1 then 1 else 1 / 2)
                         else (s - lo) / (hi - lo))"
  define scored where "scored = map (\<lambda>d. add_score d (norm (predict query (doc_text d)))) documents"
  define sorted_docs where "sorted_docs = sort_key (\<lambda>x. - rerank_score x) scored"
  define out where "out = rerank predict query documents top_k"
  have out: "out = take (slice_index top_k (length documents)) sorted_docs"
    unfolding out_def sorted_docs_def scored_def norm_def hi_def lo_def scores_def
    using rerank_eq[OF assms, of predict query top_k] by (simp add: Let_def)
  have bounds: "\<forall>x \<in> set scored. 0 \<le> rerank_score x \<and> rerank_score x \<le> 1"
  proof
    fix x assume "x \<in> set scored"
    then obtain d where d: "d \<in> set documents" and x: "x = add_score d (norm (predict query (doc_text d)))"
      by (auto simp: scored_def)
    have "predict query (doc_text d) \<in> set scores" using d by (auto simp: scores_def)
    then have "lo \<le> predict query (doc_text d)" "predict query (doc_text d) \<le> hi"
      by (simp_all add: lo_def hi_def)
    from normalized_bounds[OF this, of "length documents"] show "0 \<le> rerank_score x \<and> rerank_score x \<le> 1"
      by (simp add: x norm_def)
  qed
  have ne: "scores \<noteq> []" using assms by (simp add: scores_def)
  have eq: "lo = hi \<longleftrightarrow> (\<forall>s \<in> set scores. s = hd scores)"
  proof
    assume "lo = hi"
    have "lo \<le> s \<and> s \<le> hi" if "s \<in> set scores" for s
      using that by (simp add: lo_def hi_def)
    with \<open>lo = hi\<close> have "s = lo" if "s \<in> set scores" for s
      using that by fastforce
    moreover have "hd scores \<in> set scores" using ne by simp
    ultimately show "\<forall>s \<in> set scores. s = hd scores" by metis
  next
    assume "\<forall>s \<in> set scores. s = hd scores"
    then have "set scores = {hd scores}" using ne by (cases scores) auto
    then show "lo = hi" by (simp add: lo_def hi_def)
  qed
  have sub: "mset out \<subseteq># mset scored"
    using mset_take_subset[of _ sorted_docs] by (simp add: out sorted_docs_def)
  have all: "int (length documents) \<le> top_k \<longrightarrow> mset out = mset scored"
    by (auto simp: out sorted_docs_def slice_index_def scored_def)
  have "sorted (map (\<lambda>x. - rerank_score x) sorted_docs)"
    unfolding sorted_docs_def by (rule sorted_sort_key)
  then have "sorted_wrt (\<lambda>x y. rerank_score x \<ge> rerank_score y) sorted_docs"
    by (simp add: sorted_map)
  then have "sorted_wrt (\<lambda>x y. rerank_score x \<ge> rerank_score y) out"
    unfolding out by (metis append_take_drop_id sorted_wrt_append)
  then have desc: "sorted_wrt (\<ge>) (map rerank_score out)"
    by (simp add: sorted_wrt_map)
  have stable: "\<forall>v. prefix (filter (\<lambda>x. rerank_score x = v) out) (filter (\<lambda>x. rerank_score x = v) scored)"
  proof
    fix v
    have "filter (\<lambda>x. - rerank_score x = - v) sorted_docs = filter (\<lambda>x. - rerank_score x = - v) scored"
      unfolding sorted_docs_def by (rule sort_key_stable)
    then have "filter (\<lambda>x. rerank_score x = v) sorted_docs = filter (\<lambda>x. rerank_score x = v) scored"
      by simp
    moreover have "prefix (filter (\<lambda>x. rerank_score x = v) out) (filter (\<lambda>x. rerank_score x = v) sorted_docs)"
      unfolding out by (intro filter_mono_prefix take_is_prefix)
    ultimately show "prefix (filter (\<lambda>x. rerank_score x = v) out) (filter (\<lambda>x. rerank_score x = v) scored)"
      by simp
  qed
  from bounds eq sub all desc stable show ?thesis
    unfolding Let_def out_def scored_def norm_def hi_def lo_def scores_def by blast
qed

text \<open>Equal raw scores: \<open>1/2\<close> each in the given order, and \<open>1\<close> for a single candidate.\<close>

lemma rerank_ties_example:
  "map (\<lambda>x. (doc_text x, rerank_score x)) (rerank (\<lambda>q t. 7) ''q'' example_docs 10) =
     [(''a'', 1 / 2), (''b'', 1 / 2), (''c'', 1 / 2)]
   \<and> map rerank_score (rerank (\<lambda>q t. 7) ''q'' [hd example_docs] 10) = [1]"
  by (simp add: rerank_def example_docs_def Let_def py_slice_def slice_index_def
      add_score_def document.extend_def)

text \<open>The theorem at \<open>example_docs\<close>, whose raw scores are 2, 4 and 3.\<close>

theorem rerank_normalized_witness:
  "example_docs \<noteq> []
   \<and> sorted_wrt (\<ge>) (map rerank_score (rerank example_predict ''q'' example_docs 10))
   \<and> map (\<lambda>x. (doc_text x, rerank_score x)) (rerank example_predict ''q'' example_docs 10) =
       [(''b'', 1), (''c'', 1 / 2), (''a'', 0)]"
proof -
  have ne: "example_docs \<noteq> []" by (simp add: example_docs_def)
  have "sorted_wrt (\<ge>) (map rerank_score (rerank example_predict ''q'' example_docs 10))"
    using rerank_normalized[OF ne, of example_predict "''q''" 10] unfolding Let_def by blast
  moreover have "map (\<lambda>x. (doc_text x, rerank_score x)) (rerank example_predict ''q'' example_docs 10) =
       [(''b'', 1), (''c'', 1 / 2), (''a'', 0)]"
    by (simp add: rerank_def example_docs_def example_predict_def Let_def py_slice_def slice_index_def
      add_score_def document.extend_def)
  ultimately show ?thesis using ne by blast
qed

section \<open>VectorStore.get_all_resources\<close>

lemma keys_bump_chunks [simp]: "map fst (bump_chunks rid rm) = map fst rm"
  by (induction rm) (auto simp: bump_chunks_def)

lemma key_set_bump_chunks [simp]: "fst ` set (bump_chunks rid rm) = fst ` set rm"
  using keys_bump_chunks[of rid rm] by (metis set_map)

lemma bump_chunks_other:
  "(k, v) \<in> set rm \<Longrightarrow> k \<noteq> rid \<Longrightarrow> (k, v) \<in> set (bump_chunks rid rm)"
  by (force simp: bump_chunks_def)

lemma bump_chunks_same:
  "(k, v) \<in> set rm \<Longrightarrow> (k, v\<lparr>num_chunks := num_chunks v + 1\<rparr>) \<in> set (bump_chunks k rm)"
  by (force simp: bump_chunks_def)

lemma group_resources_keys:
  "set (map fst (group_resources ms rm)) =
     set (map fst rm) \<union> {resource_id m | m. m \<in> set ms \<and> \<not> deleted m \<and> resource_id m \<noteq> []}"
proof (induction ms rm rule: group_resources.induct)
  case (1 rm)
  then show ?case by simp
next
  case (2 m rest rm)
  then show ?case
    by (auto simp: Let_def map_of_eq_None_iff split: if_splits)
qed

lemma group_resources_distinct:
  "distinct (map fst rm) \<Longrightarrow> distinct (map fst (group_resources ms rm))"
proof (induction ms rm rule: group_resources.induct)
  case (1 rm)
  then show ?case by simp
next
  case (2 m rest rm)
  then show ?case
    by (auto simp: Let_def map_of_eq_None_iff split: if_splits)
qed

lemma group_resources_skip:
  "deleted m \<or> resource_id m = [] \<Longrightarrow> group_resources (m # rest) rm = group_resources rest rm"
  by auto

lemma group_resources_known:
  "\<not> deleted m \<Longrightarrow> resource_id m \<noteq> [] \<Longrightarrow> resource_id m \<in> fst ` set rm \<Longrightarrow>
   group_resources (m # rest) rm = group_resources rest (bump_chunks (resource_id m) rm)"
  by (simp add: Let_def map_of_eq_None_iff)

lemma group_resources_new:
  "\<not> deleted m \<Longrightarrow> resource_id m \<noteq> [] \<Longrightarrow> resource_id m \<notin> fst ` set rm \<Longrightarrow>
   group_resources (m # rest) rm =
     group_resources rest (bump_chunks (resource_id m)
       (rm @ [(resource_id m, \<lparr>res_id = resource_id m, filename = file_name m, num_chunks = 0,
                               res_uploaded_at = uploaded_at m\<rparr>)]))"
  by (simp add: Let_def map_of_eq_None_iff)

lemma group_resources_old:
  assumes "distinct (map fst rm)" "(k, v) \<in> set rm"
  shows "(k, v\<lparr>num_chunks := num_chunks v
             + length (filter (\<lambda>m. \<not> deleted m \<and> resource_id m \<noteq> [] \<and> resource_id m = k) ms)\<rparr>)
           \<in> set (group_resources ms rm)"
  using assms
proof (induction ms arbitrary: rm v)
  case Nil
  then show ?case by simp
next
  case (Cons m rest)
  let ?cnt = "\<lambda>ms. length (filter (\<lambda>m. \<not> deleted m \<and> resource_id m \<noteq> [] \<and> resource_id m = k) ms)"
  consider (skip) "deleted m \<or> resource_id m = []"
    | (same) "\<not> deleted m" "resource_id m \<noteq> []" "resource_id m = k"
    | (other_known) "\<not> deleted m" "resource_id m \<noteq> []" "resource_id m \<noteq> k" "resource_id m \<in> fst ` set rm"
    | (other_new) "\<not> deleted m" "resource_id m \<noteq> []" "resource_id m \<noteq> k" "resource_id m \<notin> fst ` set rm"
    by blast
  then show ?case
  proof cases
    case skip
    from Cons.IH[OF Cons.prems] skip show ?thesis
      by (auto simp del: group_resources.simps simp: group_resources_skip)
  next
    case same
    have k: "k \<in> fst ` set rm" using Cons.prems(2) by force
    have d: "distinct (map fst (bump_chunks k rm))" using Cons.prems(1) by simp
    have "(k, v\<lparr>num_chunks := num_chunks v + 1\<rparr>) \<in> set (bump_chunks k rm)"
      using Cons.prems(2) by (rule bump_chunks_same)
    from Cons.IH[OF d this] same k show ?thesis
      by (simp del: group_resources.simps add: group_resources_known add.assoc)
  next
    case other_known
    have d: "distinct (map fst (bump_chunks (resource_id m) rm))" using Cons.prems(1) by simp
    have "(k, v) \<in> set (bump_chunks (resource_id m) rm)"
      using Cons.prems(2) other_known(3) by (intro bump_chunks_other) auto
    from Cons.IH[OF d this] other_known show ?thesis
      by (simp del: group_resources.simps add: group_resources_known)
  next
    case other_new
    let ?rm = "rm @ [(resource_id m, \<lparr>res_id = resource_id m, filename = file_name m, num_chunks = 0,
                               res_uploaded_at = uploaded_at m\<rparr>)]"
    have d: "distinct (map fst (bump_chunks (resource_id m) ?rm))"
      using Cons.prems(1) other_new(4) by simp
    have "(k, v) \<in> set (bump_chunks (resource_id m) ?rm)"
      using Cons.prems(2) other_new(3) by (intro bump_chunks_other) auto
    from Cons.IH[OF d this] other_new show ?thesis
      by (simp del: group_resources.simps add: group_resources_new)
  qed
qed

lemma group_resources_fresh:
  assumes "distinct (map fst rm)" "k \<notin> fst ` set rm" "k \<noteq> []"
    and "filter (\<lambda>m. \<not> deleted m \<and> resource_id m = k) ms \<noteq> []"
  shows "(k, \<lparr>res_id = k,
              filename = file_name (hd (filter (\<lambda>m. \<not> deleted m \<and> resource_id m = k) ms)),
              num_chunks = length (filter (\<lambda>m. \<not> deleted m \<and> resource_id m = k) ms),
              res_uploaded_at = uploaded_at (hd (filter (\<lambda>m. \<not> deleted m \<and> resource_id m = k) ms))\<rparr>)
           \<in> set (group_resources ms rm)"
  using assms
proof (induction ms arbitrary: rm)
  case Nil
  then show ?case by simp
next
  case (Cons m rest)
  consider (skip) "deleted m \<or> resource_id m = []"
    | (same) "\<not> deleted m" "resource_id m \<noteq> []" "resource_id m = k"
    | (other_known) "\<not> deleted m" "resource_id m \<noteq> []" "resource_id m \<noteq> k" "resource_id m \<in> fst ` set rm"
    | (other_new) "\<not> deleted m" "resource_id m \<noteq> []" "resource_id m \<noteq> k" "resource_id m \<notin> fst ` set rm"
    by blast
  then show ?case
  proof cases
    case skip
    with Cons.prems(3,4) have "filter (\<lambda>m. \<not> deleted m \<and> resource_id m = k) rest \<noteq> []"
      by auto
    from Cons.IH[OF Cons.prems(1,2,3) this] skip Cons.prems(3) show ?thesis
      by (auto simp del: group_resources.simps simp: group_resources_skip)
  next
    case same
    let ?new = "\<lparr>res_id = k, filename = file_name m, num_chunks = 0, res_uploaded_at = uploaded_at m\<rparr>"
    let ?rm = "bump_chunks k (rm @ [(k, ?new)])"
    have d: "distinct (map fst ?rm)" using Cons.prems(1,2) by simp
    have mem: "(k, ?new\<lparr>num_chunks := num_chunks ?new + 1\<rparr>) \<in> set ?rm"
      by (rule bump_chunks_same) simp
    have feq: "(\<lambda>m. \<not> deleted m \<and> resource_id m \<noteq> [] \<and> resource_id m = k)
        = (\<lambda>m. \<not> deleted m \<and> resource_id m = k)"
      using Cons.prems(3) by auto
    have "(k, \<lparr>res_id = k, filename = file_name m,
              num_chunks = Suc (length (filter (\<lambda>m. \<not> deleted m \<and> resource_id m = k) rest)),
              res_uploaded_at = uploaded_at m\<rparr>) \<in> set (group_resources rest ?rm)"
      using group_resources_old[OF d mem, of rest] by (simp add: feq)
    with same Cons.prems(2) show ?thesis
      by (simp del: group_resources.simps add: group_resources_new)
  next
    case other_known
    with Cons.prems(4) have ne: "filter (\<lambda>m. \<not> deleted m \<and> resource_id m = k) rest \<noteq> []"
      by auto
    have d: "distinct (map fst (bump_chunks (resource_id m) rm))" using Cons.prems(1) by simp
    have "k \<notin> fst ` set (bump_chunks (resource_id m) rm)"
      using Cons.prems(2) by simp
    from Cons.IH[OF d this Cons.prems(3) ne] other_known show ?thesis
      by (simp del: group_resources.simps add: group_resources_known)
  next
    case other_new
    with Cons.prems(4) have ne: "filter (\<lambda>m. \<not> deleted m \<and> resource_id m = k) rest \<noteq> []"
      by auto
    let ?rm = "rm @ [(resource_id m, \<lparr>res_id = resource_id m, filename = file_name m, num_chunks = 0,
                               res_uploaded_at = uploaded_at m\<rparr>)]"
    have d: "distinct (map fst (bump_chunks (resource_id m) ?rm))"
      using Cons.prems(1) other_new(4) by simp
    have "k \<notin> fst ` set (bump_chunks (resource_id m) ?rm)"
      using Cons.prems(2) other_new(3) by simp
    from Cons.IH[OF d this Cons.prems(3) ne] other_new show ?thesis
      by (simp del: group_resources.simps add: group_resources_new)
  qed
qed

lemma group_resources_entry:
  assumes "(k, v) \<in> set (group_resources ms [])"
  shows "k \<noteq> [] \<and> filter (\<lambda>m. \<not> deleted m \<and> resource_id m = k) ms \<noteq> []
       \<and> v = \<lparr>res_id = k,
              filename = file_name (hd (filter (\<lambda>m. \<not> deleted m \<and> resource_id m = k) ms)),
              num_chunks = length (filter (\<lambda>m. \<not> deleted m \<and> resource_id m = k) ms),
              res_uploaded_at = uploaded_at (hd (filter (\<lambda>m. \<not> deleted m \<and> resource_id m = k) ms))\<rparr>"
proof -
  from assms have "k \<in> set (map fst (group_resources ms []))" by force
  then obtain m where m: "m \<in> set ms" "\<not> deleted m" "resource_id m \<noteq> []" "k = resource_id m"
    unfolding group_resources_keys by auto
  then have ne: "filter (\<lambda>m. \<not> deleted m \<and> resource_id m = k) ms \<noteq> []"
    by (auto simp: filter_empty_conv)
  have d: "distinct (map fst (group_resources ms []))"
    by (rule group_resources_distinct) simp
  from m have knz: "k \<noteq> []" by simp
  have "(k, \<lparr>res_id = k,
              filename = file_name (hd (filter (\<lambda>m. \<not> deleted m \<and> resource_id m = k) ms)),
              num_chunks = length (filter (\<lambda>m. \<not> deleted m \<and> resource_id m = k) ms),
              res_uploaded_at = uploaded_at (hd (filter (\<lambda>m. \<not> deleted m \<and> resource_id m = k) ms))\<rparr>)
           \<in> set (group_resources ms [])"
    by (rule group_resources_fresh[OF _ _ knz ne]) simp_all
  from eq_key_imp_eq_value[OF d assms this] knz ne show ?thesis by blast
qed

lemma summary_fields:
  "s = \<lparr>res_id = k, filename = f, num_chunks = n, res_uploaded_at = u\<rparr> \<Longrightarrow>
   res_id s = k \<and> filename s = f \<and> num_chunks s = n \<and> res_uploaded_at s = u"
  by simp

lemma get_all_resources_first_live:
  "distinct (map res_id (get_all_resources vs))
   \<and> set (map res_id (get_all_resources vs)) =
       {resource_id m | m. m \<in> set (metadata_store vs) \<and> \<not> deleted m \<and> resource_id m \<noteq> []}
   \<and> (\<forall>s \<in> set (get_all_resources vs).
         filter (\<lambda>m. \<not> deleted m \<and> resource_id m = res_id s) (metadata_store vs) \<noteq> []
         \<and> filename s = file_name (hd (filter (\<lambda>m. \<not> deleted m \<and> resource_id m = res_id s) (metadata_store vs)))
         \<and> num_chunks s = length (filter (\<lambda>m. \<not> deleted m \<and> resource_id m = res_id s) (metadata_store vs))
         \<and> res_uploaded_at s = uploaded_at (hd (filter (\<lambda>m. \<not> deleted m \<and> resource_id m = res_id s) (metadata_store vs))))"
proof -
  let ?g = "group_resources (metadata_store vs) []"
  have ids: "map res_id (get_all_resources vs) = map fst ?g"
    unfolding get_all_resources_def map_map
  proof (rule map_cong[OF refl])
    fix e assume "e \<in> set ?g"
    then have "(fst e, snd e) \<in> set ?g" by simp
    from group_resources_entry[OF this] summary_fields[of "snd e" "fst e"]
    have "res_id (snd e) = fst e" by blast
    then show "(res_id \<circ> snd) e = fst e" by simp
  qed
  have d: "distinct (map res_id (get_all_resources vs))"
    unfolding ids by (rule group_resources_distinct) simp
  have k: "set (map res_id (get_all_resources vs)) =
       {resource_id m | m. m \<in> set (metadata_store vs) \<and> \<not> deleted m \<and> resource_id m \<noteq> []}"
    unfolding ids group_resources_keys by simp
  have "\<forall>s \<in> set (get_all_resources vs).
         filter (\<lambda>m. \<not> deleted m \<and> resource_id m = res_id s) (metadata_store vs) \<noteq> []
         \<and> filename s = file_name (hd (filter (\<lambda>m. \<not> deleted m \<and> resource_id m = res_id s) (metadata_store vs)))
         \<and> num_chunks s = length (filter (\<lambda>m. \<not> deleted m \<and> resource_id m = res_id s) (metadata_store vs))
         \<and> res_uploaded_at s = uploaded_at (hd (filter (\<lambda>m. \<not> deleted m \<and> resource_id m = res_id s) (metadata_store vs)))"
  proof
    fix s assume "s \<in> set (get_all_resources vs)"
    then obtain k where "(k, s) \<in> set ?g" by (auto simp: get_all_resources_def)
    from group_resources_entry[OF this]
    have ne: "filter (\<lambda>m. \<not> deleted m \<and> resource_id m = k) (metadata_store vs) \<noteq> []"
      and s: "s = \<lparr>res_id = k,
              filename = file_name (hd (filter (\<lambda>m. \<not> deleted m \<and> resource_id m = k) (metadata_store vs))),
              num_chunks = length (filter (\<lambda>m. \<not> deleted m \<and> resource_id m = k) (metadata_store vs)),
              res_uploaded_at = uploaded_at (hd (filter (\<lambda>m. \<not> deleted m \<and> resource_id m = k) (metadata_store vs)))\<rparr>"
      by blast+
    note fl = summary_fields[OF s]
    from fl have rk: "res_id s = k" by blast
    show "filter (\<lambda>m. \<not> deleted m \<and> resource_id m = res_id s) (metadata_store vs) \<noteq> []
         \<and> filename s = file_name (hd (filter (\<lambda>m. \<not> deleted m \<and> resource_id m = res_id s) (metadata_store vs)))
         \<and> num_chunks s = length (filter (\<lambda>m. \<not> deleted m \<and> resource_id m = res_id s) (metadata_store vs))
         \<and> res_uploaded_at s = uploaded_at (hd (filter (\<lambda>m. \<not> deleted m \<and> resource_id m = res_id s) (metadata_store vs)))"
      unfolding rk using ne fl by blast
  qed
  with d k show ?thesis by blast
qed

lemma uniform_Nil: "uniform []"
  by (simp add: uniform_def)

lemma uniform_upload:
  assumes "uniform ms" "rid \<noteq> []" "rid \<notin> set (map resource_id ms)"
  shows "uniform (ms @ upload_metadatas rid fname up chunks)"
proof -
  have new: "resource_id m = rid \<and> file_name m = fname \<and> uploaded_at m = up"
    if "m \<in> set (upload_metadatas rid fname up chunks)" for m
    using that by (auto simp: upload_metadatas_def)
  have old: "resource_id m \<noteq> rid" if "m \<in> set ms" for m
    using that assms(3) by auto
  have pair: "file_name m' = file_name m \<and> uploaded_at m' = uploaded_at m"
    if m: "m \<in> set ms \<or> m \<in> set (upload_metadatas rid fname up chunks)"
      and m': "m' \<in> set ms \<or> m' \<in> set (upload_metadatas rid fname up chunks)"
      and eq: "resource_id m' = resource_id m" for m m'
  proof -
    consider (oo) "m \<in> set ms" "m' \<in> set ms"
      | (nn) "m \<in> set (upload_metadatas rid fname up chunks)" "m' \<in> set (upload_metadatas rid fname up chunks)"
      | (on) "m \<in> set ms" "m' \<in> set (upload_metadatas rid fname up chunks)"
      | (no) "m \<in> set (upload_metadatas rid fname up chunks)" "m' \<in> set ms"
      using m m' by blast
    then show ?thesis
    proof cases
      case oo
      with assms(1) eq show ?thesis unfolding uniform_def by blast
    next
      case nn
      then show ?thesis using new[of m] new[of m'] by simp
    next
      case on
      then show ?thesis using old[of m] new[of m'] eq by simp
    next
      case no
      then show ?thesis using old[of m'] new[of m] eq by simp
    qed
  qed
  have nonempty: "resource_id m \<noteq> []"
    if "m \<in> set ms \<or> m \<in> set (upload_metadatas rid fname up chunks)" for m
    using that assms(1,2) new[of m] unfolding uniform_def by auto
  show ?thesis
    unfolding uniform_def set_append Un_iff using pair nonempty by blast
qed

lemma uniform_map:
  fixes f :: "metadata \<Rightarrow> metadata"
  assumes "uniform ms"
    and "\<And>m. resource_id (f m) = resource_id m"
    and "\<And>m. file_name (f m) = file_name m"
    and "\<And>m. uploaded_at (f m) = uploaded_at m"
  shows "uniform (map f ms)"
  unfolding uniform_def
proof (intro ballI conjI impI)
  fix x assume "x \<in> set (map f ms)"
  then obtain m where m: "m \<in> set ms" and x: "x = f m" by auto
  from assms(1) m have "resource_id m \<noteq> []" unfolding uniform_def by blast
  then show "resource_id x \<noteq> []" unfolding x using assms(2)[of m] by simp
  fix y assume "y \<in> set (map f ms)" and eq: "resource_id y = resource_id x"
  then obtain m' where m': "m' \<in> set ms" and y: "y = f m'" by auto
  from eq have "resource_id m' = resource_id m"
    unfolding x y using assms(2)[of m] assms(2)[of m'] by simp
  with assms(1) m m' have "file_name m' = file_name m \<and> uploaded_at m' = uploaded_at m"
    unfolding uniform_def by blast
  then show "file_name y = file_name x" "uploaded_at y = uploaded_at x"
    unfolding x y using assms(3)[of m] assms(3)[of m'] assms(4)[of m] assms(4)[of m'] by simp_all
qed

lemma uniform_mark:
  assumes "uniform ms"
  shows "uniform (map (\<lambda>m. if resource_id m = rid \<and> \<not> deleted m then m\<lparr>deleted := True\<rparr> else m) ms)"
  using assms by (rule uniform_map) simp_all

lemma uniform_state_fresh: "uniform_state (fresh d)"
  by (simp add: uniform_state_def fresh_def no_files_def vector_store_init_def
      load_if_exists_def load_def uniform_Nil)

lemma serve_uniform:
  assumes "uniform_state s" "uuid_fresh r s"
  shows "uniform_state (serve embed_texts r s)"
proof (cases r)
  case (Upload rid fname up chunks)
  with assms have u: "uniform (metadata_store (fst s) @ upload_metadatas rid fname up chunks)"
    by (intro uniform_upload) (auto simp: uniform_state_def)
  with assms(1) Upload show ?thesis
    by (auto simp: uniform_state_def process_upload_def add_documents_def index_add_def
        save_def Let_def split: sum.splits if_splits option.splits)
next
  case (Delete rid)
  obtain vs dk where s: "s = (vs, dk)" by (cases s)
  from assms(1) have "uniform (map (\<lambda>m. if resource_id m = rid \<and> \<not> deleted m then m\<lparr>deleted := True\<rparr> else m)
      (metadata_store (fst s)))"
    by (intro uniform_mark) (simp add: uniform_state_def)
  with assms(1) Delete s show ?thesis
    by (auto simp: uniform_state_def delete_resource_eq Let_def save_def split: option.splits)
next
  case (Reboot dimen)
  with assms(1) show ?thesis
    by (auto simp: uniform_state_def vector_store_init_def load_if_exists_def load_def uniform_Nil
        split: option.splits)
qed

lemma serve_all_uniform:
  "uniform_state s \<Longrightarrow> admissible embed_texts rs s \<Longrightarrow> uniform_state (serve_all embed_texts rs s)"
  unfolding serve_all_def
proof (induction rs arbitrary: s)
  case Nil
  then show ?case by simp
next
  case (Cons r rs)
  from Cons.prems have "uniform_state (serve embed_texts r s)"
    by (intro serve_uniform) auto
  from Cons.IH[OF this] Cons.prems(2) show ?case by simp
qed

lemma uniformD:
  "uniform ms \<Longrightarrow> m \<in> set ms \<Longrightarrow> m' \<in> set ms \<Longrightarrow> resource_id m' = resource_id m \<Longrightarrow>
   file_name m' = file_name m \<and> uploaded_at m' = uploaded_at m"
  unfolding uniform_def by blast

lemma uniform_earliest:
  assumes "uniform ms" and ne: "filter (\<lambda>m. \<not> deleted m \<and> resource_id m = k) ms \<noteq> []"
  shows "Min (uploaded_at ` set (filter (\<lambda>m. \<not> deleted m \<and> resource_id m = k) ms)) =
           uploaded_at (hd (filter (\<lambda>m. \<not> deleted m \<and> resource_id m = k) ms))"
    and "\<forall>m \<in> set (filter (\<lambda>m. \<not> deleted m \<and> resource_id m = k) ms).
           file_name m = file_name (hd (filter (\<lambda>m. \<not> deleted m \<and> resource_id m = k) ms))"
proof -
  define live where "live = filter (\<lambda>m. \<not> deleted m \<and> resource_id m = k) ms"
  have mem: "m \<in> set ms \<and> resource_id m = k" if "m \<in> set live" for m
    using that unfolding live_def by simp
  have h: "hd live \<in> set live" using ne unfolding live_def by (rule hd_in_set)
  have same: "file_name m = file_name (hd live) \<and> uploaded_at m = uploaded_at (hd live)"
    if "m \<in> set live" for m
    using uniformD[OF assms(1), of "hd live" m] mem[OF that] mem[OF h] by simp
  have "uploaded_at ` set live = {uploaded_at (hd live)}"
  proof (intro equalityI subsetI)
    fix u assume "u \<in> uploaded_at ` set live"
    then obtain m where "m \<in> set live" "u = uploaded_at m" by blast
    with same[of m] show "u \<in> {uploaded_at (hd live)}" by simp
  next
    fix u assume "u \<in> {uploaded_at (hd live)}"
    with h show "u \<in> uploaded_at ` set live" by blast
  qed
  then have "Min (uploaded_at ` set live) = uploaded_at (hd live)" by simp
  then show "Min (uploaded_at ` set (filter (\<lambda>m. \<not> deleted m \<and> resource_id m = k) ms)) =
           uploaded_at (hd (filter (\<lambda>m. \<not> deleted m \<and> resource_id m = k) ms))"
    unfolding live_def .
  from same have "\<forall>m \<in> set live. file_name m = file_name (hd live)" by blast
  then show "\<forall>m \<in> set (filter (\<lambda>m. \<not> deleted m \<and> resource_id m = k) ms).
           file_name m = file_name (hd (filter (\<lambda>m. \<not> deleted m \<and> resource_id m = k) ms))"
    unfolding live_def .
qed

text \<open>
  C8.  In every index state that the application reaches from a new store by uploads,
  deletions and restarts (every upload under a fresh, non-empty \<open>uuid4\<close> resource id),
  \<open>get_all_resources\<close> returns exactly one summary for every \<open>resource_id\<close> that has a live
  chunk and none for any other id; the summary carries that id, the file name that all
  live chunks of the resource have, the number of its live chunks, and the earliest
  \<open>uploaded_at\<close> among its live chunks.
\<close>

theorem list_resources_summaries:
  assumes "admissible embed_texts requests (fresh d)"
  shows "let vs = fst (serve_all embed_texts requests (fresh d)) in
         distinct (map res_id (get_all_resources vs))
       \<and> set (map res_id (get_all_resources vs)) =
           {resource_id m | m. m \<in> set (metadata_store vs) \<and> \<not> deleted m}
       \<and> (\<forall>s \<in> set (get_all_resources vs).
             filter (\<lambda>m. \<not> deleted m \<and> resource_id m = res_id s) (metadata_store vs) \<noteq> []
           \<and> (\<forall>m \<in> set (filter (\<lambda>m. \<not> deleted m \<and> resource_id m = res_id s) (metadata_store vs)).
                 file_name m = filename s)
           \<and> num_chunks s = length (filter (\<lambda>m. \<not> deleted m \<and> resource_id m = res_id s) (metadata_store vs))
           \<and> res_uploaded_at s =
               Min (uploaded_at ` set (filter (\<lambda>m. \<not> deleted m \<and> resource_id m = res_id s) (metadata_store vs))))"
proof -
  define vs where "vs = fst (serve_all embed_texts requests (fresh d))"
  have "uniform_state (serve_all embed_texts requests (fresh d))"
    using uniform_state_fresh assms by (rule serve_all_uniform)
  then have u: "uniform (metadata_store vs)"
    by (simp add: uniform_state_def vs_def)
  note g = get_all_resources_first_live[of vs]
  from g have d: "distinct (map res_id (get_all_resources vs))" by blast
  have "{resource_id m | m. m \<in> set (metadata_store vs) \<and> \<not> deleted m \<and> resource_id m \<noteq> []}
      = {resource_id m | m. m \<in> set (metadata_store vs) \<and> \<not> deleted m}"
    using u unfolding uniform_def by blast
  with g have k: "set (map res_id (get_all_resources vs)) =
           {resource_id m | m. m \<in> set (metadata_store vs) \<and> \<not> deleted m}"
    by simp
  have each: "\<forall>s \<in> set (get_all_resources vs).
             filter (\<lambda>m. \<not> deleted m \<and> resource_id m = res_id s) (metadata_store vs) \<noteq> []
           \<and> (\<forall>m \<in> set (filter (\<lambda>m. \<not> deleted m \<and> resource_id m = res_id s) (metadata_store vs)).
                 file_name m = filename s)
           \<and> num_chunks s = length (filter (\<lambda>m. \<not> deleted m \<and> resource_id m = res_id s) (metadata_store vs))
           \<and> res_uploaded_at s =
               Min (uploaded_at ` set (filter (\<lambda>m. \<not> deleted m \<and> resource_id m = res_id s) (metadata_store vs)))"
  proof
    fix s assume s: "s \<in> set (get_all_resources vs)"
    let ?live = "filter (\<lambda>m. \<not> deleted m \<and> resource_id m = res_id s) (metadata_store vs)"
    from g s have ne: "?live \<noteq> []" and f: "filename s = file_name (hd ?live)"
      and n: "num_chunks s = length ?live" and t: "res_uploaded_at s = uploaded_at (hd ?live)"
      by blast+
    from uniform_earliest[OF u ne] f n t ne
    show "?live \<noteq> [] \<and> (\<forall>m \<in> set ?live. file_name m = filename s)
           \<and> num_chunks s = length ?live \<and> res_uploaded_at s = Min (uploaded_at ` set ?live)"
      by simp
  qed
  from d k each show ?thesis unfolding vs_def[symmetric] Let_def by blast
qed

lemma normalize_unit_rows: "map normalize_L2 (map (\<lambda>t. [1, 0]) ts) = map (\<lambda>t. [1, 0]) ts"
  by (simp add: normalize_L2_def inner_product_def)

lemma example_run:
  "admissible example_embed_texts example_requests (fresh 2)
   \<and> metadata_store (fst (serve_all example_embed_texts example_requests (fresh 2))) =
       [\<lparr>chunk_id = ''c1'', resource_id = ''R1'', file_name = ''a.pdf'', page_number = 1,
         chunk_text = ''one'', uploaded_at = ''2024-01-01'', deleted = False\<rparr>,
        \<lparr>chunk_id = ''c2'', resource_id = ''R1'', file_name = ''a.pdf'', page_number = 2,
         chunk_text = ''two'', uploaded_at = ''2024-01-01'', deleted = False\<rparr>,
        \<lparr>chunk_id = ''c3'', resource_id = ''R2'', file_name = ''b.docx'', page_number = 1,
         chunk_text = ''three'', uploaded_at = ''2024-01-02'', deleted = True\<rparr>,
        \<lparr>chunk_id = ''c4'', resource_id = ''R3'', file_name = ''c.pdf'', page_number = 1,
         chunk_text = ''four'', uploaded_at = ''2024-01-03'', deleted = False\<rparr>]"
  by (simp add: example_requests_def example_embed_texts_def serve_all_def fresh_def no_files_def
      vector_store_init_def load_if_exists_def load_def process_upload_def upload_metadatas_def
      add_documents_def index_add_def normalize_L2_def inner_product_def save_def
      delete_resource_def Let_def)

text \<open>
  The theorem at \<open>example_requests\<close>: \<open>R1\<close> with two live chunks and \<open>R3\<close> with one are listed,
  the deleted \<open>R2\<close> is not.
\<close>

theorem list_resources_summaries_witness:
  "admissible example_embed_texts example_requests (fresh 2)
   \<and> get_all_resources (fst (serve_all example_embed_texts example_requests (fresh 2))) =
       [\<lparr>res_id = ''R1'', filename = ''a.pdf'', num_chunks = 2, res_uploaded_at = ''2024-01-01''\<rparr>,
        \<lparr>res_id = ''R3'', filename = ''c.pdf'', num_chunks = 1, res_uploaded_at = ''2024-01-03''\<rparr>]
   \<and> distinct (map res_id (get_all_resources (fst (serve_all example_embed_texts example_requests (fresh 2)))))"
proof -
  from example_run have a: "admissible example_embed_texts example_requests (fresh 2)" by blast
  have "get_all_resources (fst (serve_all example_embed_texts example_requests (fresh 2))) =
       [\<lparr>res_id = ''R1'', filename = ''a.pdf'', num_chunks = 2, res_uploaded_at = ''2024-01-01''\<rparr>,
        \<lparr>res_id = ''R3'', filename = ''c.pdf'', num_chunks = 1, res_uploaded_at = ''2024-01-03''\<rparr>]"
    unfolding get_all_resources_def using example_run
    by (simp add: Let_def bump_chunks_def)
  moreover have "distinct (map res_id (get_all_resources (fst (serve_all example_embed_texts example_requests (fresh 2)))))"
    using list_resources_summaries[OF a] unfolding Let_def by blast
  ultimately show ?thesis using a by blast
qed

section \<open>SearchService.search: pagination and total_found\<close>

lemma take_min_length: "take (min k (length ys)) ys = take k ys"
  by (simp add: min_def)

lemma py_slice_window:
  assumes "0 \<le> a" "0 \<le> n"
  shows "py_slice xs a (a + n) = take (nat n) (drop (nat a) xs)"
proof (cases "nat a \<le> length xs")
  case True
  with assms have "slice_index a (length xs) = nat a"
    by (simp add: slice_index_def)
  moreover from assms have "slice_index (a + n) (length xs) = min (nat a + nat n) (length xs)"
    by (simp add: slice_index_def nat_add_distrib)
  ultimately have "py_slice xs a (a + n) = take (min (nat a + nat n) (length xs) - nat a) (drop (nat a) xs)"
    by (simp add: py_slice_def Let_def)
  also have "min (nat a + nat n) (length xs) - nat a = min (nat n) (length (drop (nat a) xs))"
    using True by (simp add: min_def)
  finally show ?thesis by (simp only: take_min_length)
next
  case False
  with assms show ?thesis by (simp add: py_slice_def slice_index_def Let_def)
qed

lemma service_search_results:
  "resp_results (service_search str_lower embed_query predict vs query fs top_k offset limit) =
     map to_search_result
       (py_slice (reranked_sequence str_lower embed_query predict vs query fs offset limit) offset (offset + limit))"
  by (simp add: service_search_def reranked_sequence_def Let_def py_slice_def)

lemma service_search_has_more:
  "has_more (service_search str_lower embed_query predict vs query fs top_k offset limit) =
     (candidates str_lower embed_query vs query fs offset limit \<noteq> []
      \<and> offset + limit < int (length (reranked_sequence str_lower embed_query predict vs query fs offset limit)))"
  by (simp add: service_search_def reranked_sequence_def Let_def)

text \<open>
  C4.  For every \<open>offset \<ge> 0\<close> and \<open>limit \<ge> 1\<close> the results of \<open>SearchService.search\<close> are the
  entries \<open>offset \<le> i < offset + limit\<close> of the reranked sequence, in number
  \<open>min limit (max 0 (len reranked - offset))\<close>, and \<open>has_more\<close> is true exactly when
  \<open>offset + limit < len reranked\<close>.
\<close>

theorem search_pagination:
  assumes "0 \<le> offset" "1 \<le> limit"
  shows "let reranked = reranked_sequence str_lower embed_query predict vs query fs offset limit;
             resp = service_search str_lower embed_query predict vs query fs top_k offset limit
         in resp_results resp = map to_search_result (take (nat limit) (drop (nat offset) reranked))
          \<and> int (length (resp_results resp)) = min limit (max 0 (int (length reranked) - offset))
          \<and> has_more resp = (offset + limit < int (length reranked))"
proof -
  let ?r = "reranked_sequence str_lower embed_query predict vs query fs offset limit"
  let ?resp = "service_search str_lower embed_query predict vs query fs top_k offset limit"
  from assms have res: "resp_results ?resp = map to_search_result (take (nat limit) (drop (nat offset) ?r))"
    by (simp add: service_search_results py_slice_window)
  from assms have len: "int (length (resp_results ?resp)) = min limit (max 0 (int (length ?r) - offset))"
    unfolding res by auto
  have "?r = []" if "candidates str_lower embed_query vs query fs offset limit = []"
    using that by (simp add: reranked_sequence_def)
  with assms have more: "has_more ?resp = (offset + limit < int (length ?r))"
    unfolding service_search_has_more by auto
  from res len more show ?thesis by (simp add: Let_def)
qed

lemma length_rerank:
  "documents \<noteq> [] \<Longrightarrow>
   length (rerank predict query documents top_k) = slice_index top_k (length documents)"
  by (simp add: rerank_eq Let_def slice_index_def)

lemma length_reranked_of:
  assumes "initial_results \<noteq> []" "0 \<le> offset + limit + 10"
  shows "int (length (reranked_of predict query initial_results offset limit)) =
           min (int (length initial_results)) (offset + limit + 10)"
  using assms by (simp add: reranked_of_def Let_def length_rerank slice_index_def)

lemma ranking_store_ab: "ranking (index store_ab) [1, 0] = [0, 2, 1]"
  by (simp add: ranking_def store_ab_def ntotal_def inner_product_def upt_rec)

lemma candidates_store_ab:
  "candidates ascii_lower example_embed store_ab ''q'' None offset limit =
     [(mk_chunk ''c1'' ''R1'' ''a.pdf'' ''2024-01-01'' False, 1),
      (mk_chunk ''c3'' ''R1'' ''a.pdf'' ''2024-01-01'' False, 3 / 5),
      (mk_chunk ''c2'' ''R2'' ''b.docx'' ''2024-01-02'' False, 0)]"
proof -
  have n: "normalize_L2 [1, 0] = [1, 0]"
    by (simp add: normalize_L2_def inner_product_def)
  have "search [1, 0] (nat (max 50 (offset + limit + 10))) store_ab =
     [(mk_chunk ''c1'' ''R1'' ''a.pdf'' ''2024-01-01'' False, 1),
      (mk_chunk ''c3'' ''R1'' ''a.pdf'' ''2024-01-01'' False, 3 / 5),
      (mk_chunk ''c2'' ''R2'' ''b.docx'' ''2024-01-02'' False, 0)]"
    unfolding search_def index_search_def Let_def n ranking_store_ab
    by (simp add: store_ab_def ntotal_def mk_chunk_def inner_product_def)
  then show ?thesis
    by (simp add: candidates_def example_embed_def Let_def)
qed

lemma reranked_store_ab:
  assumes "0 \<le> offset + limit + 10"
  shows "int (length (reranked_sequence ascii_lower example_embed predict store_ab ''q'' None offset limit)) =
           min 3 (offset + limit + 10)"
  using length_reranked_of[OF _ assms, of "candidates ascii_lower example_embed store_ab ''q'' None offset limit" predict "''q''"]
  by (simp add: reranked_sequence_def Let_def candidates_store_ab)

text \<open>
  The theorem at \<open>store_ab\<close>, where three candidates are reranked: the first page of two has
  more to come, the page at offset 2 holds the last result.
\<close>

theorem search_pagination_witness:
  "(0::int) \<le> 0 \<and> (1::int) \<le> 2 \<and> (0::int) \<le> 2
   \<and> length (resp_results (service_search ascii_lower example_embed example_predict store_ab ''q'' None 10 0 2)) = 2
   \<and> has_more (service_search ascii_lower example_embed example_predict store_ab ''q'' None 10 0 2)
   \<and> length (resp_results (service_search ascii_lower example_embed example_predict store_ab ''q'' None 10 2 2)) = 1
   \<and> \<not> has_more (service_search ascii_lower example_embed example_predict store_ab ''q'' None 10 2 2)"
proof -
  have h: "(0::int) \<le> 0" "(1::int) \<le> 2" "(0::int) \<le> 2" by simp_all
  have l0: "length (reranked_sequence ascii_lower example_embed example_predict store_ab ''q'' None 0 2) = 3"
    using reranked_store_ab[of 0 2 example_predict] by simp
  have l2: "length (reranked_sequence ascii_lower example_embed example_predict store_ab ''q'' None 2 2) = 3"
    using reranked_store_ab[of 2 2 example_predict] by simp
  from search_pagination[OF h(1,2), of ascii_lower example_embed example_predict store_ab "''q''" None 10]
  have "int (length (resp_results (service_search ascii_lower example_embed example_predict store_ab ''q'' None 10 0 2))) = 2"
    and "has_more (service_search ascii_lower example_embed example_predict store_ab ''q'' None 10 0 2)"
    by (simp_all add: Let_def l0)
  moreover
  from search_pagination[OF h(3,2), of ascii_lower example_embed example_predict store_ab "''q''" None 10]
  have "int (length (resp_results (service_search ascii_lower example_embed example_predict store_ab ''q'' None 10 2 2))) = 1"
    and "\<not> has_more (service_search ascii_lower example_embed example_predict store_ab ''q'' None 10 2 2)"
    by (simp_all add: Let_def l2)
  ultimately show ?thesis by simp
qed

text \<open>
  C5.  \<open>total_found\<close> is the length of the reranked sequence.  With a non-empty candidate
  list after filtering that length is \<open>min (len candidates) (offset + limit + 10)\<close> (for
  every request with \<open>offset + limit + 10 \<ge> 0\<close>, which \<open>offset \<ge> 0\<close> and \<open>limit \<ge> 1\<close>
  give): a count of recalled and filtered candidates, cut at the rerank bound.  With an
  empty candidate list the response has no results, \<open>total_found = 0\<close>,
  \<open>has_more = False\<close> and the requested offset and limit.
\<close>

theorem search_total_found:
  "let cands = candidates str_lower embed_query vs query fs offset limit;
       reranked = reranked_sequence str_lower embed_query predict vs query fs offset limit;
       resp = service_search str_lower embed_query predict vs query fs top_k offset limit
   in total_found resp = length reranked
    \<and> (cands \<noteq> [] \<and> 0 \<le> offset + limit + 10 \<longrightarrow>
         int (total_found resp) = min (int (length cands)) (offset + limit + 10))
    \<and> (cands = [] \<longrightarrow>
         resp = \<lparr>resp_query = query, resp_results = [], total_found = 0, has_more = False,
                 resp_offset = offset, resp_limit = limit\<rparr>)
    \<and> resp_query resp = query \<and> resp_offset resp = offset \<and> resp_limit resp = limit"
proof -
  let ?c = "candidates str_lower embed_query vs query fs offset limit"
  let ?r = "reranked_sequence str_lower embed_query predict vs query fs offset limit"
  let ?resp = "service_search str_lower embed_query predict vs query fs top_k offset limit"
  have tf: "total_found ?resp = length ?r"
    by (simp add: service_search_def reranked_sequence_def Let_def)
  have bound: "int (total_found ?resp) = min (int (length ?c)) (offset + limit + 10)"
    if "?c \<noteq> []" "0 \<le> offset + limit + 10"
    unfolding tf using that length_reranked_of[OF that, of predict query]
    by (simp add: reranked_sequence_def Let_def)
  have empty: "?resp = \<lparr>resp_query = query, resp_results = [], total_found = 0, has_more = False,
                 resp_offset = offset, resp_limit = limit\<rparr>" if "?c = []"
    using that by (simp add: service_search_def Let_def)
  have rest: "resp_query ?resp = query \<and> resp_offset ?resp = offset \<and> resp_limit ?resp = limit"
    by (simp add: service_search_def Let_def)
  from tf bound empty rest show ?thesis by (simp add: Let_def)
qed

text \<open>The theorem at \<open>store_ab\<close> (three candidates) and at the empty store (none).\<close>

lemma candidates_empty_store: "candidates ascii_lower example_embed empty_store ''q'' None offset limit = []"
  by (simp add: candidates_def search_def empty_store_def ntotal_def Let_def)

theorem search_total_found_witness:
  "candidates ascii_lower example_embed store_ab ''q'' None 0 2 \<noteq> [] \<and> (0::int) \<le> 0 + 2 + 10
   \<and> total_found (service_search ascii_lower example_embed example_predict store_ab ''q'' None 10 0 2) = 3
   \<and> candidates ascii_lower example_embed empty_store ''q'' None 0 2 = []
   \<and> service_search ascii_lower example_embed example_predict empty_store ''q'' None 10 0 2 =
       \<lparr>resp_query = ''q'', resp_results = [], total_found = 0, has_more = False,
        resp_offset = 0, resp_limit = 2\<rparr>"
proof -
  have c: "candidates ascii_lower example_embed store_ab ''q'' None 0 2 \<noteq> []"
    by (simp add: candidates_store_ab)
  have l: "length (candidates ascii_lower example_embed store_ab ''q'' None 0 2) = 3"
    by (simp add: candidates_store_ab)
  from search_total_found[of ascii_lower example_embed store_ab "''q''" None 0 2 example_predict 10] c
  have "int (total_found (service_search ascii_lower example_embed example_predict store_ab ''q'' None 10 0 2)) = 3"
    unfolding Let_def l by simp
  moreover
  from search_total_found[of ascii_lower example_embed empty_store "''q''" None 0 2 example_predict 10]
  have "service_search ascii_lower example_embed example_predict empty_store ''q'' None 10 0 2 =
       \<lparr>resp_query = ''q'', resp_results = [], total_found = 0, has_more = False,
        resp_offset = 0, resp_limit = 2\<rparr>"
    unfolding Let_def using candidates_empty_store by blast
  ultimately show ?thesis using c candidates_empty_store by simp
qed

section \<open>SearchService._apply_filters\<close>









lemma add_score_fields [simp]:
  "doc_text (add_score d s) = doc_text d"
  "doc_metadata (add_score d s) = doc_metadata d"
  "vector_score (add_score d s) = vector_score d"
  by (simp_all add: add_score_def document.extend_def)






section \<open>ResourceService.delete_resource\<close>

lemma remove_upload_eq:
  "remove_upload [''.pdf'', ''.docx''] rid ud =
     (if path_exists ud (rid @ ''.pdf'') then unlink ud (rid @ ''.pdf'')
      else if path_exists ud (rid @ ''.docx'') then unlink ud (rid @ ''.docx'')
      else Inr ud)"
  by simp

lemma unlink_existing:
  "path_exists ud p \<Longrightarrow>
   unlink ud p = (if ud p = Some True then Inr (ud(p := None)) else Inl OSError)"
  by (auto simp: path_exists_def unlink_def split: option.splits)

text \<open>
  C7 (as amended).  \<open>ResourceService.delete_resource\<close> raises \<open>ValueError\<close> (not found)
  exactly when \<open>VectorStore.delete_resource\<close> newly marks no chunk, and then changes
  nothing.  Otherwise the chunks are marked and saved, and the first of \<open>id.pdf\<close>,
  \<open>id.docx\<close> that exists in the upload directory is removed: with no such file, or when
  the removal succeeds, the call returns the count; when the removal fails, its error
  reaches the caller.
\<close>

theorem service_delete_resource_result:
  "let n = fst (delete_resource rid (app_store a, app_disk a));
       res = fst (service_delete_resource rid a);
       a' = snd (service_delete_resource rid a);
       target = (if path_exists (app_uploads a) (rid @ ''.pdf'') then Some (rid @ ''.pdf'')
                 else if path_exists (app_uploads a) (rid @ ''.docx'') then Some (rid @ ''.docx'')
                 else None)
   in (res = Inl ValueError \<longleftrightarrow> n = 0)
    \<and> (app_store a', app_disk a') = snd (delete_resource rid (app_store a, app_disk a))
    \<and> (n = 0 \<longrightarrow> app_uploads a' = app_uploads a)
    \<and> (n > 0 \<longrightarrow>
         (case target of
            None \<Rightarrow> res = Inr n \<and> app_uploads a' = app_uploads a
          | Some p \<Rightarrow>
              if app_uploads a p = Some True
              then res = Inr n \<and> app_uploads a' = (app_uploads a)(p := None)
              else res = Inl OSError \<and> app_uploads a' = app_uploads a))"
proof -
  obtain n vs dk where d: "delete_resource rid (app_store a, app_disk a) = (n, vs, dk)"
    by (cases "delete_resource rid (app_store a, app_disk a)") auto
  show ?thesis
    unfolding Let_def service_delete_resource_def d remove_upload_eq
    by (auto simp: unlink_existing split: sum.splits)
qed

text \<open>
  The theorem at \<open>removable_app\<close>: deleting \<open>R1\<close> returns 2 and removes \<open>R1.pdf\<close>; deleting
  the unknown \<open>R9\<close> raises \<open>ValueError\<close>.
\<close>

theorem service_delete_resource_result_witness:
  "fst (delete_resource ''R1'' (app_store removable_app, app_disk removable_app)) = 2
   \<and> fst (service_delete_resource ''R1'' removable_app) = Inr 2
   \<and> app_uploads (snd (service_delete_resource ''R1'' removable_app)) ''R1.pdf'' = None
   \<and> fst (delete_resource ''R9'' (app_store removable_app, app_disk removable_app)) = 0
   \<and> fst (service_delete_resource ''R9'' removable_app) = Inl ValueError"
proof -
  have n1: "fst (delete_resource ''R1'' (app_store removable_app, app_disk removable_app)) = 2"
    by (simp add: delete_resource_eq Let_def removable_app_def store_ab_def mk_chunk_def)
  have n9: "fst (delete_resource ''R9'' (app_store removable_app, app_disk removable_app)) = 0"
    by (simp add: delete_resource_eq Let_def removable_app_def store_ab_def mk_chunk_def)
  have ex: "path_exists (app_uploads removable_app) (''R1'' @ ''.pdf'')"
    "app_uploads removable_app (''R1'' @ ''.pdf'') = Some True"
    by (simp_all add: path_exists_def removable_app_def)
  from service_delete_resource_result[of "''R1''" removable_app]
  have "fst (service_delete_resource ''R1'' removable_app) = Inr 2
      \<and> app_uploads (snd (service_delete_resource ''R1'' removable_app)) =
          (app_uploads removable_app)(''R1'' @ ''.pdf'' := None)"
    unfolding Let_def n1 using ex by simp
  moreover from service_delete_resource_result[of "''R9''" removable_app]
  have "fst (service_delete_resource ''R9'' removable_app) = Inl ValueError"
    unfolding Let_def n9 by simp
  ultimately show ?thesis using n1 n9 by simp
qed

text \<open>
  C7 as stated fails at \<open>locked_app\<close>: two chunks are newly marked, \<open>R1.pdf\<close> exists and cannot
  be removed, and the caller gets the error of \<open>unlink\<close> instead of the count.
\<close>

theorem service_delete_resource_surfaces_counterexample:
  "fst (delete_resource ''R1'' (app_store locked_app, app_disk locked_app)) = 2
   \<and> path_exists (app_uploads locked_app) ''R1.pdf''
   \<and> unlink (app_uploads locked_app) ''R1.pdf'' = Inl OSError
   \<and> fst (service_delete_resource ''R1'' locked_app) = Inl OSError"
  by (simp add: service_delete_resource_def delete_resource_eq Let_def locked_app_def
      store_ab_def mk_chunk_def path_exists_def unlink_def)

end
